theory Spec2Isabelle
  imports Complex_Main
begin

section \<open>ISS tracker: the orbital prediction and simulation core of \<open>App\<close>\<close>

text \<open>
  A shallow embedding of the pure logic of the application component: the geodesy
  helpers, the two-phase pass predictor, the simulation path builder, the polyline
  segmentation, the playback clock and the live-telemetry fetch handler.

  Modelling conventions.
  \<^item> A JavaScript number that the code tests with \<open>Number.isFinite\<close> or initialises
    with \<open>Infinity\<close> is a \<open>jsnum\<close>; every other number is its exact value: a
    coordinate or a distance is a \<open>real\<close>, an epoch time in milliseconds an \<open>int\<close>.
    The rounding of IEEE doubles is modelled for the distance function only
    (\<open>haversineDistanceKm64\<close>); everywhere else a number is its exact value.
    \<open>null\<close>/\<open>undefined\<close> is \<open>None\<close>.
  \<^item> \<open>Date.now()\<close> is the parameter \<open>now\<close>.
  \<^item> The orbital model \<open>satrec\<close> of the external propagator library is represented by
    its ground track: the function from a time to the sub-satellite point that
    \<open>propagate\<close>, \<open>gstime\<close>, \<open>eciToGeodetic\<close>, \<open>degreesLat\<close> and \<open>degreesLong\<close>
    compute together, \<open>None\<close> where the propagator yields no position.
  \<^item> React state setters are explicit state passing: an effect or handler returns
    the new value of the state it sets.
\<close>

subsection \<open>JavaScript numbers\<close>

datatype jsnum = Fin real | NaN | PosInfinity | NegInfinity

definition isFinite :: "jsnum \<Rightarrow> bool" where
  "isFinite v = (case v of Fin _ \<Rightarrow> True | _ \<Rightarrow> False)"

fun js_lt :: "jsnum \<Rightarrow> jsnum \<Rightarrow> bool" where
  "js_lt (Fin a) (Fin b) = (a < b)"
| "js_lt (Fin a) PosInfinity = True"
| "js_lt NegInfinity (Fin b) = True"
| "js_lt NegInfinity PosInfinity = True"
| "js_lt _ _ = False"

fun js_le :: "jsnum \<Rightarrow> jsnum \<Rightarrow> bool" where
  "js_le (Fin a) (Fin b) = (a \<le> b)"
| "js_le NaN _ = False"
| "js_le _ NaN = False"
| "js_le NegInfinity _ = True"
| "js_le _ PosInfinity = True"
| "js_le _ _ = False"

text \<open>The integer part of a quotient, rounded toward zero, and the remainder \<open>n % d\<close>
  of two finite numbers (\<open>d\<close> not zero): it has the sign of the dividend.\<close>

definition js_truncate :: "real \<Rightarrow> int" where
  "js_truncate r = (if r < 0 then - \<lfloor>- r\<rfloor> else \<lfloor>r\<rfloor>)"

definition js_rem :: "real \<Rightarrow> real \<Rightarrow> real" where
  "js_rem n d = n - d * of_int (js_truncate (n / d))"

subsection \<open>Configuration constants\<close>

definition PASS_LOOKAHEAD_MINUTES :: int where "PASS_LOOKAHEAD_MINUTES = 1440"
definition PASS_COARSE_STEP_SECONDS :: int where "PASS_COARSE_STEP_SECONDS = 30"
definition PASS_REFINE_STEP_SECONDS :: int where "PASS_REFINE_STEP_SECONDS = 1"
definition PASS_REFINE_WINDOW_SECONDS :: int where "PASS_REFINE_WINDOW_SECONDS = 240"
definition PASS_THRESHOLD_COARSE_KM :: real where "PASS_THRESHOLD_COARSE_KM = 75"
definition PASS_THRESHOLD_DEFAULT_KM :: real where "PASS_THRESHOLD_DEFAULT_KM = 5"
definition SIM_STEP_SECONDS :: int where "SIM_STEP_SECONDS = 15"
definition SIM_TIME_SCALE :: real where "SIM_TIME_SCALE = 120"

subsection \<open>Geodesy helpers\<close>

record geo =
  lat :: real
  lng :: real

record target = geo +
  label :: string

definition toRad :: "real \<Rightarrow> real" where
  "toRad deg = (deg * pi) / 180"

text \<open>\<open>Math.atan2\<close> on finite arguments.\<close>

definition atan2 :: "real \<Rightarrow> real \<Rightarrow> real" where
  "atan2 y x =
     (if 0 < x then arctan (y / x)
      else if x < 0 \<and> 0 \<le> y then arctan (y / x) + pi
      else if x < 0 then arctan (y / x) - pi
      else if 0 < y then pi / 2
      else if y < 0 then - (pi / 2)
      else 0)"

definition haversineDistanceKm ::
  "'a geo_scheme option \<Rightarrow> 'b geo_scheme option \<Rightarrow> real option" where
  "haversineDistanceKm origin targetPoint =
     (case (origin, targetPoint) of
        (Some og, Some tg) \<Rightarrow>
          (let R = 6371;
               dLat = toRad (lat tg - lat og);
               dLon = toRad (lng tg - lng og);
               lat1 = toRad (lat og);
               lat2 = toRad (lat tg);
               a = sin (dLat / 2) * sin (dLat / 2)
                   + sin (dLon / 2) * sin (dLon / 2) * cos lat1 * cos lat2;
               c = 2 * atan2 (sqrt a) (sqrt (1 - a))
           in Some (R * c))
      | _ \<Rightarrow> None)"

text \<open>The body of \<open>normalizeLng\<close> on a finite number.\<close>

definition normalizeLngFin :: "real \<Rightarrow> real" where
  "normalizeLngFin x =
     (let normalized = js_rem x 360;
          normalized = (if normalized > 180 then normalized - 360 else normalized);
          normalized = (if normalized < - 180 then normalized + 360 else normalized)
      in normalized)"

definition normalizeLng :: "jsnum \<Rightarrow> jsnum" where
  "normalizeLng v =
     (if \<not> isFinite v then v
      else (case v of Fin x \<Rightarrow> Fin (normalizeLngFin x) | other \<Rightarrow> other))"

subsection \<open>The distance function in binary64 arithmetic\<close>

text \<open>
  The program computes with IEEE 754 binary64 numbers. For the properties of
  \<open>haversineDistanceKm\<close> that depend on rounding, the function is embedded a second
  time, as \<open>haversineDistanceKm64\<close>, with every operation of the source rounded where
  the source rounds it and in the source's order of evaluation.

  \<^item> \<open>round64\<close> is rounding to the nearest double, ties to even: a double in the
    binade \<open>[2^e, 2^(e+1))\<close> is an integer multiple of \<open>2^(e-52)\<close>, below \<open>2^(-1022)\<close> of
    \<open>2^(-1074)\<close>, and a result of magnitude \<open>2^1024\<close> or more is an infinity. The sign of
    zero is not modelled.
  \<^item> \<open>+\<close>, \<open>-\<close>, \<open>*\<close> and \<open>/\<close> round the exact result, as IEEE 754 requires.
  \<^item> \<open>Math.sin\<close>, \<open>Math.cos\<close>, \<open>Math.sqrt\<close> and \<open>Math.atan2\<close> are taken to be correctly
    rounded: the double nearest the exact value.
  \<^item> \<open>Math.PI\<close> is the double nearest \<open>pi\<close>, \<open>884279719003555 / 2^48\<close>.
  \<^item> A coordinate is a double, given by its value.
\<close>

definition pow2 :: "int \<Rightarrow> real" where
  "pow2 e = (if 0 \<le> e then 2 ^ nat e else inverse (2 ^ nat (- e)))"

definition round_even :: "real \<Rightarrow> int" where
  "round_even r =
     (let f = \<lfloor>r\<rfloor>; d = r - of_int f
      in if d < 1 / 2 then f else if 1 / 2 < d then f + 1 else if even f then f else f + 1)"

definition binade :: "real \<Rightarrow> int" where
  "binade x = \<lfloor>log 2 \<bar>x\<bar>\<rfloor>"

definition round64 :: "real \<Rightarrow> jsnum" where
  "round64 x =
     (if x = 0 then Fin 0
      else
        (let e = max (binade x) (- 1022);
             ulp = pow2 (e - 52);
             y = ulp * of_int (round_even (x / ulp))
         in if pow2 1024 \<le> \<bar>y\<bar> then (if 0 < x then PosInfinity else NegInfinity)
            else Fin y))"


text \<open>The arithmetic operators and \<open>===\<close> on numbers.\<close>

fun js_add :: "jsnum \<Rightarrow> jsnum \<Rightarrow> jsnum" where
  "js_add NaN _ = NaN"
| "js_add _ NaN = NaN"
| "js_add (Fin a) (Fin b) = round64 (a + b)"
| "js_add PosInfinity NegInfinity = NaN"
| "js_add NegInfinity PosInfinity = NaN"
| "js_add PosInfinity _ = PosInfinity"
| "js_add _ PosInfinity = PosInfinity"
| "js_add NegInfinity _ = NegInfinity"
| "js_add _ NegInfinity = NegInfinity"

fun js_sub :: "jsnum \<Rightarrow> jsnum \<Rightarrow> jsnum" where
  "js_sub NaN _ = NaN"
| "js_sub _ NaN = NaN"
| "js_sub (Fin a) (Fin b) = round64 (a - b)"
| "js_sub PosInfinity PosInfinity = NaN"
| "js_sub NegInfinity NegInfinity = NaN"
| "js_sub PosInfinity _ = PosInfinity"
| "js_sub _ NegInfinity = PosInfinity"
| "js_sub NegInfinity _ = NegInfinity"
| "js_sub _ PosInfinity = NegInfinity"

fun js_mul :: "jsnum \<Rightarrow> jsnum \<Rightarrow> jsnum" where
  "js_mul NaN _ = NaN"
| "js_mul _ NaN = NaN"
| "js_mul (Fin a) (Fin b) = round64 (a * b)"
| "js_mul (Fin a) PosInfinity =
     (if a = 0 then NaN else if 0 < a then PosInfinity else NegInfinity)"
| "js_mul (Fin a) NegInfinity =
     (if a = 0 then NaN else if 0 < a then NegInfinity else PosInfinity)"
| "js_mul PosInfinity (Fin b) =
     (if b = 0 then NaN else if 0 < b then PosInfinity else NegInfinity)"
| "js_mul NegInfinity (Fin b) =
     (if b = 0 then NaN else if 0 < b then NegInfinity else PosInfinity)"
| "js_mul PosInfinity PosInfinity = PosInfinity"
| "js_mul NegInfinity NegInfinity = PosInfinity"
| "js_mul _ _ = NegInfinity"

fun js_div :: "jsnum \<Rightarrow> jsnum \<Rightarrow> jsnum" where
  "js_div NaN _ = NaN"
| "js_div _ NaN = NaN"
| "js_div (Fin a) (Fin b) =
     (if b = 0 then (if a = 0 then NaN else if 0 < a then PosInfinity else NegInfinity)
      else round64 (a / b))"
| "js_div (Fin a) _ = Fin 0"
| "js_div PosInfinity (Fin b) = (if 0 \<le> b then PosInfinity else NegInfinity)"
| "js_div NegInfinity (Fin b) = (if 0 \<le> b then NegInfinity else PosInfinity)"
| "js_div _ _ = NaN"

fun js_eq :: "jsnum \<Rightarrow> jsnum \<Rightarrow> bool" where
  "js_eq (Fin a) (Fin b) = (a = b)"
| "js_eq PosInfinity PosInfinity = True"
| "js_eq NegInfinity NegInfinity = True"
| "js_eq _ _ = False"

text \<open>The functions of \<open>Math\<close> that the distance function calls.\<close>

definition MATH_PI :: jsnum where
  "MATH_PI = Fin (884279719003555 / 281474976710656)"

fun mathSin :: "jsnum \<Rightarrow> jsnum" where
  "mathSin (Fin x) = round64 (sin x)"
| "mathSin _ = NaN"

fun mathCos :: "jsnum \<Rightarrow> jsnum" where
  "mathCos (Fin x) = round64 (cos x)"
| "mathCos _ = NaN"

fun mathSqrt :: "jsnum \<Rightarrow> jsnum" where
  "mathSqrt (Fin x) = (if x < 0 then NaN else round64 (sqrt x))"
| "mathSqrt PosInfinity = PosInfinity"
| "mathSqrt _ = NaN"

fun mathAtan2 :: "jsnum \<Rightarrow> jsnum \<Rightarrow> jsnum" where
  "mathAtan2 NaN _ = NaN"
| "mathAtan2 _ NaN = NaN"
| "mathAtan2 (Fin y) (Fin x) = round64 (atan2 y x)"
| "mathAtan2 (Fin y) PosInfinity = Fin 0"
| "mathAtan2 (Fin y) NegInfinity = (if 0 \<le> y then round64 pi else round64 (- pi))"
| "mathAtan2 PosInfinity (Fin x) = round64 (pi / 2)"
| "mathAtan2 NegInfinity (Fin x) = round64 (- (pi / 2))"
| "mathAtan2 PosInfinity PosInfinity = round64 (pi / 4)"
| "mathAtan2 PosInfinity NegInfinity = round64 (3 * pi / 4)"
| "mathAtan2 NegInfinity PosInfinity = round64 (- (pi / 4))"
| "mathAtan2 NegInfinity NegInfinity = round64 (- (3 * pi / 4))"

text \<open>\<open>toRad\<close> and \<open>haversineDistanceKm\<close>, operation by operation.\<close>

definition toRad64 :: "jsnum \<Rightarrow> jsnum" where
  "toRad64 deg = js_div (js_mul deg MATH_PI) (Fin 180)"

definition haversineDistanceKm64 ::
  "'a geo_scheme option \<Rightarrow> 'b geo_scheme option \<Rightarrow> jsnum option" where
  "haversineDistanceKm64 origin targetPoint =
     (case (origin, targetPoint) of
        (Some og, Some tg) \<Rightarrow>
          (let R = Fin 6371;
               dLat = toRad64 (js_sub (Fin (lat tg)) (Fin (lat og)));
               dLon = toRad64 (js_sub (Fin (lng tg)) (Fin (lng og)));
               lat1 = toRad64 (Fin (lat og));
               lat2 = toRad64 (Fin (lat tg));
               a = js_add
                     (js_mul (mathSin (js_div dLat (Fin 2))) (mathSin (js_div dLat (Fin 2))))
                     (js_mul
                        (js_mul
                           (js_mul (mathSin (js_div dLon (Fin 2))) (mathSin (js_div dLon (Fin 2))))
                           (mathCos lat1))
                        (mathCos lat2));
               c = js_mul (Fin 2) (mathAtan2 (mathSqrt a) (mathSqrt (js_sub (Fin 1) a)))
           in Some (js_mul R c))
      | _ \<Rightarrow> None)"

subsection \<open>The orbital model and the pass predictor\<close>

type_synonym satrec = "int \<Rightarrow> geo option"

definition computeGroundPoint :: "satrec option \<Rightarrow> int \<Rightarrow> geo option" where
  "computeGroundPoint model timeMs =
     (case model of None \<Rightarrow> None | Some track \<Rightarrow> track timeMs)"

text \<open>\<open>best\<close> and \<open>bestRefined\<close>: \<open>{ distance: Infinity, time: null }\<close> at the start.\<close>

record closest =
  c_distance :: jsnum
  c_time :: "int option"

definition closest_init :: closest where
  "closest_init = \<lparr>c_distance = PosInfinity, c_time = None\<rparr>"

record refineWindow =
  w_start :: int
  w_end :: int

record prediction =
  p_time :: int
  p_distance :: jsnum
  thresholdHit :: bool

definition coarseStepMs :: int where "coarseStepMs = PASS_COARSE_STEP_SECONDS * 1000"
definition refineStepMs :: int where "refineStepMs = PASS_REFINE_STEP_SECONDS * 1000"
definition refineWindowMs :: int where "refineWindowMs = PASS_REFINE_WINDOW_SECONDS * 1000"

text \<open>\<open>dist != null && dist <= k\<close>.\<close>

definition distWithin :: "real option \<Rightarrow> real \<Rightarrow> bool" where
  "distWithin dst k = (case dst of None \<Rightarrow> False | Some d \<Rightarrow> d \<le> k)"

text \<open>\<open>if (dist != null && dist < b.distance) b = { distance: dist, time: timeMs }\<close>.\<close>

definition closer :: "real option \<Rightarrow> int \<Rightarrow> closest \<Rightarrow> closest" where
  "closer dst timeMs b =
     (case dst of
        None \<Rightarrow> b
      | Some d \<Rightarrow>
          if js_lt (Fin d) (c_distance b) then \<lparr>c_distance = Fin d, c_time = Some timeMs\<rparr>
          else b)"

text \<open>\<open>evaluatePoint\<close> returns the distance and, as it assigns the captured variable
  \<open>best\<close>, the new value of \<open>best\<close>.\<close>

definition evaluatePoint ::
  "satrec option \<Rightarrow> target \<Rightarrow> closest \<Rightarrow> int \<Rightarrow> real option \<times> closest" where
  "evaluatePoint model targetPoint best timeMs =
     (case computeGroundPoint model timeMs of
        None \<Rightarrow> (None, best)
      | Some groundPoint \<Rightarrow>
          (let ground = \<lparr>lat = lat groundPoint, lng = normalizeLngFin (lng groundPoint)\<rparr>;
               dst = haversineDistanceKm (Some ground) (Some targetPoint)
           in (dst, closer dst timeMs best)))"

function coarseScan ::
  "satrec option \<Rightarrow> target \<Rightarrow> int \<Rightarrow> int \<Rightarrow> int \<Rightarrow> closest
     \<Rightarrow> refineWindow option \<times> closest" where
  "coarseScan model targetPoint now endT t best =
     (if t \<le> endT then
        (let r = evaluatePoint model targetPoint best t in
         if distWithin (fst r) PASS_THRESHOLD_COARSE_KM then
           (Some \<lparr>w_start = max now (t - refineWindowMs),
                   w_end = min endT (t + refineWindowMs)\<rparr>, snd r)
         else coarseScan model targetPoint now endT (t + coarseStepMs) (snd r))
      else (None, best))"
  by pat_completeness auto
termination
  by (relation "measure (\<lambda>(model, targetPoint, now, endT, t, best). nat (endT - t + 1))")
     (auto simp: coarseStepMs_def PASS_COARSE_STEP_SECONDS_def)

text \<open>The refine loop either returns from the effect with a prediction (\<open>Inl\<close>) or
  runs to the end of the window (\<open>Inr\<close>, with \<open>bestRefined\<close> and \<open>best\<close>).\<close>

function refineScan ::
  "satrec option \<Rightarrow> target \<Rightarrow> real \<Rightarrow> int \<Rightarrow> int \<Rightarrow> closest \<Rightarrow> closest
     \<Rightarrow> prediction + closest \<times> closest" where
  "refineScan model targetPoint passThresholdKm wend t bestRefined best =
     (if t \<le> wend then
        (let r = evaluatePoint model targetPoint best t;
             bestRefined' = closer (fst r) t bestRefined
         in case fst r of
              None \<Rightarrow>
                refineScan model targetPoint passThresholdKm wend (t + refineStepMs)
                  bestRefined' (snd r)
            | Some d \<Rightarrow>
                if d \<le> passThresholdKm then
                  Inl \<lparr>p_time = t, p_distance = Fin d, thresholdHit = True\<rparr>
                else
                  refineScan model targetPoint passThresholdKm wend (t + refineStepMs)
                    bestRefined' (snd r))
      else Inr (bestRefined, best))"
  by pat_completeness auto
termination
  by (relation "measure (\<lambda>(model, targetPoint, thr, wend, t, br, best). nat (wend - t + 1))")
     (auto simp: refineStepMs_def PASS_REFINE_STEP_SECONDS_def)

text \<open>\<open>if (best.time) ... else setNextPassPrediction(null)\<close>: a time is truthy when it
  is neither \<open>null\<close> nor \<open>0\<close>.\<close>

definition fallbackPrediction :: "closest \<Rightarrow> prediction option" where
  "fallbackPrediction best =
     (case c_time best of
        None \<Rightarrow> None
      | Some tm \<Rightarrow>
          if tm \<noteq> 0 then
            Some \<lparr>p_time = tm, p_distance = c_distance best, thresholdHit = False\<rparr>
          else None)"

definition refinedPrediction :: "real \<Rightarrow> closest \<Rightarrow> prediction option" where
  "refinedPrediction passThresholdKm bestRefined =
     (case c_time bestRefined of
        None \<Rightarrow> None
      | Some tm \<Rightarrow>
          if tm \<noteq> 0 then
            Some \<lparr>p_time = tm, p_distance = c_distance bestRefined,
                   thresholdHit = js_le (c_distance bestRefined) (Fin passThresholdKm)\<rparr>
          else None)"

text \<open>The effect that computes \<open>nextPassPrediction\<close>: the value it sets.\<close>

definition nextPassPrediction ::
  "satrec option \<Rightarrow> target option \<Rightarrow> real \<Rightarrow> int \<Rightarrow> prediction option" where
  "nextPassPrediction model targetPoint passThresholdKm now =
     (case (model, targetPoint) of
        (Some track, Some tp) \<Rightarrow>
          (let endT = now + PASS_LOOKAHEAD_MINUTES * 60 * 1000;
               scan = coarseScan model tp now endT now closest_init
           in case fst scan of
                None \<Rightarrow> fallbackPrediction (snd scan)
              | Some w \<Rightarrow>
                  (case refineScan model tp passThresholdKm (w_end w) (w_start w)
                          closest_init (snd scan) of
                     Inl p \<Rightarrow> Some p
                   | Inr (bestRefined, best) \<Rightarrow>
                       (case refinedPrediction passThresholdKm bestRefined of
                          Some p \<Rightarrow> Some p
                        | None \<Rightarrow> fallbackPrediction best)))
      | _ \<Rightarrow> None)"

subsection \<open>The simulation path builder\<close>

text \<open>A path sample. The start point and the appended pass-time point carry no
  \<open>distance\<close> field.\<close>

record sample = geo +
  time :: int
  distance :: "real option"

definition simStepMs :: int where "simStepMs = SIM_STEP_SECONDS * 1000"

text \<open>The loop \<open>for (t = now + stepMs; t <= end + stepMs; t += stepMs)\<close>, with its
  \<open>continue\<close> and its \<open>break\<close>; \<open>path\<close> is the array pushed to.\<close>

function simLoop ::
  "satrec option \<Rightarrow> target \<Rightarrow> real \<Rightarrow> int \<Rightarrow> int \<Rightarrow> sample list \<Rightarrow> sample list" where
  "simLoop model targetPoint passThresholdKm endT t path =
     (if t \<le> endT + simStepMs then
        (case computeGroundPoint model t of
           None \<Rightarrow> simLoop model targetPoint passThresholdKm endT (t + simStepMs) path
         | Some groundPoint \<Rightarrow>
             (let ground = \<lparr>lat = lat groundPoint, lng = normalizeLngFin (lng groundPoint)\<rparr>;
                  dst = haversineDistanceKm (Some ground) (Some targetPoint);
                  path' = path @ [\<lparr>lat = lat ground, lng = lng ground, time = t, distance = dst\<rparr>]
              in if distWithin dst passThresholdKm then path'
                 else simLoop model targetPoint passThresholdKm endT (t + simStepMs) path'))
      else path)"
  by pat_completeness auto
termination
  by (relation "measure (\<lambda>(model, targetPoint, thr, endT, t, path). nat (endT + simStepMs - t + 1))")
     (auto simp: simStepMs_def SIM_STEP_SECONDS_def)

definition simulationPath ::
  "satrec option \<Rightarrow> target option \<Rightarrow> prediction option \<Rightarrow> real \<Rightarrow> int
     \<Rightarrow> sample list option" where
  "simulationPath model targetPoint pred passThresholdKm now =
     (case (model, targetPoint, pred) of
        (Some track, Some tp, Some p) \<Rightarrow>
          if p_time p = 0 then None
          else
            (let endT = p_time p in
             if endT \<le> now then None
             else
               (let path0 = (case computeGroundPoint model now of
                               None \<Rightarrow> []
                             | Some startPoint \<Rightarrow>
                                 [\<lparr>lat = lat startPoint, lng = lng startPoint, time = now,
                                   distance = None\<rparr>]);
                    path = simLoop model tp passThresholdKm endT (now + simStepMs) path0
                in if length path < 2 then None
                   else
                     (let lastPoint = last path in
                      if time lastPoint < endT then
                        (case computeGroundPoint model endT of
                           None \<Rightarrow> Some path
                         | Some finalPoint \<Rightarrow>
                             Some (path @ [\<lparr>lat = lat finalPoint,
                                             lng = normalizeLngFin (lng finalPoint),
                                             time = endT, distance = None\<rparr>]))
                      else Some path)))
      | _ \<Rightarrow> None)"

subsection \<open>Polyline segmentation\<close>

type_synonym coords = "real \<times> real"

record segState =
  segments :: "coords list list"
  current :: "coords list"

text \<open>The callback of \<open>simulationPath.forEach((point, index) => ...)\<close>; \<open>n\<close> is
  \<open>simulationPath.length\<close>.\<close>

definition segStep :: "nat \<Rightarrow> segState \<Rightarrow> sample \<times> nat \<Rightarrow> segState" where
  "segStep n st entry =
     (let point = fst entry; index = snd entry;
          coords = (lat point, lng point);
          st1 =
            (if current st = [] then st\<lparr>current := [coords]\<rparr>
             else
               (let prev = last (current st);
                    diff = \<bar>snd coords - snd prev\<bar>
                in if diff > 180 then
                     \<lparr>segments = (if length (current st) > 1 then segments st @ [current st]
                                   else segments st),
                      current = [coords]\<rparr>
                   else st\<lparr>current := current st @ [coords]\<rparr>))
      in if index = n - 1 \<and> length (current st1) > 1 then
           st1\<lparr>segments := segments st1 @ [current st1]\<rparr>
         else st1)"

definition simulationSegments :: "sample list option \<Rightarrow> coords list list option" where
  "simulationSegments simPath =
     (case simPath of
        None \<Rightarrow> None
      | Some path \<Rightarrow>
          if length path = 0 then None
          else
            (let st = foldl (segStep (length path)) \<lparr>segments = [], current = []\<rparr>
                        (zip path [0 ..< length path])
             in if segments st \<noteq> [] then Some (segments st) else None))"

subsection \<open>Playback\<close>

record playback =
  isSimPlaying :: bool
  simTimeMs :: "real option"

text \<open>The variables \<open>running\<close> and \<open>previous\<close> of the animation effect's closure.\<close>

record rafLoop =
  running :: bool
  previous :: "real option"


text \<open>One animation frame: \<open>step(timestamp)\<close> on a non-empty path.\<close>

fun step :: "sample list \<Rightarrow> real \<Rightarrow> real \<Rightarrow> rafLoop \<times> playback \<Rightarrow> rafLoop \<times> playback" where
  "step path simSpeedMultiplier timestamp (loop, st) =
     (if \<not> running loop then (loop, st)
      else
        (let endTime = real_of_int (time (last path));
             speedFactor = SIM_TIME_SCALE * simSpeedMultiplier;
             prev = (case previous loop of None \<Rightarrow> timestamp | Some p \<Rightarrow> p);
             delta = timestamp - prev;
             loop1 = loop\<lparr>previous := Some timestamp\<rparr>;
             base = (case simTimeMs st of
                       None \<Rightarrow> real_of_int (time (hd path))
                     | Some cur \<Rightarrow> cur);
             next = base + delta * speedFactor
         in if next \<ge> endTime then
              (loop1\<lparr>running := False\<rparr>, \<lparr>isSimPlaying = False, simTimeMs = Some endTime\<rparr>)
            else (loop1, st\<lparr>simTimeMs := Some next\<rparr>)))"



definition handleSimSpeedToggle :: "real \<Rightarrow> real" where
  "handleSimSpeedToggle prev = (if prev = 1 then 8 else 1)"

subsection \<open>Live telemetry\<close>

record issState = geo +
  timestamp :: int
  velocityKmh :: "real option"

text \<open>The JSON body of the telemetry endpoint.\<close>

record telemetry =
  latitude :: real
  longitude :: real
  d_timestamp :: int
  velocity :: real

text \<open>What \<open>await fetch(ISS_API)\<close> and \<open>await response.json()\<close> can do: the fetch
  rejects with an error, or it resolves to a response with its \<open>ok\<close> flag, whose body
  parses or throws.\<close>

datatype body = JsonThrows string | Json telemetry

datatype fetched = Rejected string | Response bool body

record appState =
  issPosition :: "issState option"
  issHistory :: "issState list"
  error :: "string option"

definition catchError :: "bool \<Rightarrow> string \<Rightarrow> appState \<Rightarrow> appState" where
  "catchError cancelled message st = (if \<not> cancelled then st\<lparr>error := Some message\<rparr> else st)"

text \<open>\<open>next.slice(-120)\<close>.\<close>

definition sliceLast :: "nat \<Rightarrow> 'a list \<Rightarrow> 'a list" where
  "sliceLast n xs = drop (length xs - n) xs"

definition fetchIssData :: "bool \<Rightarrow> fetched \<Rightarrow> appState \<Rightarrow> appState" where
  "fetchIssData cancelled outcome st =
     (case outcome of
        Rejected message \<Rightarrow> catchError cancelled message st
      | Response ok content \<Rightarrow>
          if \<not> ok then catchError cancelled ''No se pudo leer la telemetria de la ISS'' st
          else
            (case content of
               JsonThrows message \<Rightarrow> catchError cancelled message st
             | Json d \<Rightarrow>
                 if cancelled then st
                 else
                   (let position = \<lparr>lat = latitude d, lng = longitude d,
                                     timestamp = d_timestamp d * 1000,
                                     velocityKmh = Some (velocity d)\<rparr>
                    in st\<lparr>issPosition := Some position,
                          issHistory := sliceLast 120 (issHistory st @ [position]),
                          error := None\<rparr>)))"

subsection \<open>Notions used to state the properties\<close>

text \<open>The distance \<open>evaluatePoint\<close> computes for the sample at time \<open>t\<close>.\<close>

definition groundDistance :: "satrec option \<Rightarrow> target \<Rightarrow> int \<Rightarrow> real option" where
  "groundDistance model targetPoint t =
     (case computeGroundPoint model t of
        None \<Rightarrow> None
      | Some groundPoint \<Rightarrow>
          haversineDistanceKm
            (Some \<lparr>lat = lat groundPoint, lng = normalizeLngFin (lng groundPoint)\<rparr>)
            (Some targetPoint))"

text \<open>The times a loop \<open>for (t = t0; t <= e; t += s)\<close> visits when it runs to its end.\<close>

function loopTimes :: "int \<Rightarrow> int \<Rightarrow> int \<Rightarrow> int list" where
  "loopTimes t e s = (if 0 < s \<and> t \<le> e then t # loopTimes (t + s) e s else [])"
  by pat_completeness auto
termination
  by (relation "measure (\<lambda>(t, e, s). nat (e - t + 1))") auto

text \<open>The end of the lookahead window, the sample times of the coarse scan, and those
  of the refine scan around a coarse hit at \<open>t0\<close>.\<close>

definition lookaheadEnd :: "int \<Rightarrow> int" where
  "lookaheadEnd now = now + PASS_LOOKAHEAD_MINUTES * 60 * 1000"

definition coarseTimes :: "int \<Rightarrow> int list" where
  "coarseTimes now = loopTimes now (lookaheadEnd now) coarseStepMs"

definition refineTimes :: "int \<Rightarrow> int \<Rightarrow> int list" where
  "refineTimes now t0 =
     loopTimes (max now (t0 - refineWindowMs)) (min (lookaheadEnd now) (t0 + refineWindowMs))
       refineStepMs"

text \<open>The sample at \<open>u\<close>, at distance \<open>d\<close>, is the closest of the samples at the times
  \<open>ts\<close>, and the earliest of the closest ones.\<close>

definition closestSample :: "satrec option \<Rightarrow> target \<Rightarrow> int list \<Rightarrow> int \<Rightarrow> real \<Rightarrow> bool" where
  "closestSample model targetPoint ts u d \<longleftrightarrow>
     u \<in> set ts \<and> groundDistance model targetPoint u = Some d
     \<and> (\<forall>v \<in> set ts. case groundDistance model targetPoint v of
                         None \<Rightarrow> True
                       | Some d' \<Rightarrow> d \<le> d' \<and> (v < u \<longrightarrow> d < d'))"

text \<open>The value of \<open>best\<close> after the samples at the times \<open>ts\<close>.\<close>

definition scanBest :: "satrec option \<Rightarrow> target \<Rightarrow> int list \<Rightarrow> closest \<Rightarrow> closest" where
  "scanBest model targetPoint ts b =
     foldl (\<lambda>b u. closer (groundDistance model targetPoint u) u b) b ts"

text \<open>A value of \<open>best\<close> or \<open>bestRefined\<close> whose time, when set, is that of a sample with the
  recorded distance.\<close>

definition sampled :: "satrec option \<Rightarrow> target \<Rightarrow> closest \<Rightarrow> bool" where
  "sampled model targetPoint b \<longleftrightarrow>
     (case c_time b of
        None \<Rightarrow> True
      | Some u \<Rightarrow> (case groundDistance model targetPoint u of
                     None \<Rightarrow> False
                   | Some d \<Rightarrow> c_distance b = Fin d))"

text \<open>The samples the path builder has collected when its loop ends (the array
  \<open>path\<close> at the test \<open>path.length < 2\<close>).\<close>

definition usableSamples :: "satrec option \<Rightarrow> target \<Rightarrow> real \<Rightarrow> int \<Rightarrow> int \<Rightarrow> sample list" where
  "usableSamples model targetPoint passThresholdKm endT now =
     simLoop model targetPoint passThresholdKm endT (now + simStepMs)
       (case computeGroundPoint model now of
          None \<Rightarrow> []
        | Some startPoint \<Rightarrow>
            [\<lparr>lat = lat startPoint, lng = lng startPoint, time = now, distance = None\<rparr>])"

text \<open>The polyline of a path, and its maximal runs without an antimeridian jump: a
  jump is a pair of consecutive points whose longitudes differ by more than 180.\<close>

definition isJump :: "coords \<Rightarrow> coords \<Rightarrow> bool" where
  "isJump c d = (\<bar>snd d - snd c\<bar> > 180)"

fun splitRuns :: "coords list \<Rightarrow> coords list list" where
  "splitRuns [] = []"
| "splitRuns [c] = [[c]]"
| "splitRuns (c # d # rest) =
     (if isJump c d then [c] # splitRuns (d # rest)
      else (case splitRuns (d # rest) of
              [] \<Rightarrow> [[c]]
            | r # rs \<Rightarrow> (c # r) # rs))"

fun jumpCount :: "coords list \<Rightarrow> nat" where
  "jumpCount (c # d # rest) = (if isJump c d then 1 else 0) + jumpCount (d # rest)"
| "jumpCount _ = 0"

definition pathCoords :: "sample list \<Rightarrow> coords list" where
  "pathCoords path = map (\<lambda>point. (lat point, lng point)) path"

definition keptRuns :: "sample list \<Rightarrow> coords list list" where
  "keptRuns path = filter (\<lambda>r. 2 \<le> length r) (splitRuns (pathCoords path))"

text \<open>The state of the segmentation after the points of a prefix of the path.\<close>

definition segFold :: "nat \<Rightarrow> sample list \<Rightarrow> segState" where
  "segFold n xs = foldl (segStep n) \<lparr>segments = [], current = []\<rparr> (zip xs [0 ..< length xs])"

subsection \<open>Example inputs\<close>

text \<open>A target on the equator, a ground track that stays at the
  antipode of that target, and one that yields a position at the listed times only.\<close>

definition equatorTarget :: target where
  "equatorTarget = \<lparr>lat = 0, lng = 0, label = ''origin''\<rparr>"

definition antipodalTrack :: satrec where
  "antipodalTrack = (\<lambda>t. Some \<lparr>lat = 0, lng = 180\<rparr>)"

definition patchyTrack :: "int list \<Rightarrow> satrec" where
  "patchyTrack usable = (\<lambda>t. if t \<in> set usable then Some \<lparr>lat = 0, lng = 180\<rparr> else None)"

text \<open>Ground tracks along the equator: one that is 0.4 degrees from the target at
  time 1000, 0.1 degrees at time 2000 and over it from then on; one that stays 1 degree
  from it.\<close>

definition approachTrack :: satrec where
  "approachTrack =
     (\<lambda>t. Some \<lparr>lat = 0, lng = (if t = 1000 then 2 / 5 else if t = 2000 then 1 / 10 else 0)\<rparr>)"

definition nearTrack :: satrec where
  "nearTrack = (\<lambda>t. Some \<lparr>lat = 0, lng = 1\<rparr>)"

section \<open>Properties\<close>

subsection \<open>Longitude normalisation\<close>

lemma js_truncate_frac:
  "\<bar>r - of_int (js_truncate r)\<bar> < 1"
  "0 \<le> r \<Longrightarrow> 0 \<le> r - of_int (js_truncate r)"
  "r \<le> 0 \<Longrightarrow> r - of_int (js_truncate r) \<le> 0"
  unfolding js_truncate_def by (simp_all, linarith+)

lemma js_rem_360: "js_rem x 360 = 360 * (x / 360 - of_int (js_truncate (x / 360)))"
  by (simp add: js_rem_def algebra_simps)

lemma js_rem_bounds: "\<bar>js_rem x 360\<bar> < 360"
  using js_truncate_frac(1)[of "x / 360"] unfolding js_rem_360 by (simp add: abs_mult)

lemma js_rem_sign: "0 \<le> x \<Longrightarrow> 0 \<le> js_rem x 360" "x \<le> 0 \<Longrightarrow> js_rem x 360 \<le> 0"
  using js_truncate_frac(2,3)[of "x / 360"] unfolding js_rem_360 by simp_all

lemma js_truncate_small: "\<bar>r\<bar> < 1 \<Longrightarrow> js_truncate r = 0"
  unfolding js_truncate_def by (auto simp: floor_eq_iff)

lemma js_rem_small: "\<bar>x\<bar> \<le> 180 \<Longrightarrow> js_rem x 360 = x"
  by (simp add: js_rem_def js_truncate_small)

lemma normalizeLngFin_range: "- 180 \<le> normalizeLngFin x \<and> normalizeLngFin x \<le> 180"
  using js_rem_bounds[of x] by (auto simp: normalizeLngFin_def Let_def)

lemma normalizeLngFin_lower: "- 180 < normalizeLngFin x \<or> x \<le> - 180"
proof (cases "0 \<le> x")
  case True
  then show ?thesis using js_rem_bounds[of x] js_rem_sign(1)[of x]
    by (auto simp: normalizeLngFin_def Let_def)
next
  case False
  show ?thesis
  proof (cases "- 180 < x")
    case True
    with False have "js_rem x 360 = x" by (intro js_rem_small) simp
    with True False show ?thesis by (auto simp: normalizeLngFin_def Let_def)
  next
    case False
    then show ?thesis by simp
  qed
qed

lemma normalizeLngFin_small: "\<bar>x\<bar> \<le> 180 \<Longrightarrow> normalizeLngFin x = x"
  by (auto simp: normalizeLngFin_def Let_def js_rem_small)

lemma normalizeLngFin_idem: "normalizeLngFin (normalizeLngFin x) = normalizeLngFin x"
  using normalizeLngFin_range[of x] by (intro normalizeLngFin_small) (simp add: abs_le_iff)

lemma normalizeLng_Fin: "normalizeLng (Fin x) = Fin (normalizeLngFin x)"
  by (simp add: normalizeLng_def isFinite_def)

text \<open>
  Claim C3, as amended. For every finite \<open>x\<close>, \<open>normalizeLng x\<close> is a finite number of the
  closed interval \<open>[-180, 180]\<close>, and it is above \<open>-180\<close> unless \<open>x \<le> -180\<close>;
  \<open>normalizeLng\<close> is idempotent; a non-finite input is returned unchanged.
\<close>

theorem normalizeLng_range_idempotent:
  "(\<exists>y. normalizeLng (Fin x) = Fin y \<and> - 180 \<le> y \<and> y \<le> 180 \<and> (- 180 < y \<or> x \<le> - 180))
   \<and> normalizeLng (normalizeLng v) = normalizeLng v
   \<and> normalizeLng NaN = NaN
   \<and> normalizeLng PosInfinity = PosInfinity
   \<and> normalizeLng NegInfinity = NegInfinity"
proof -
  have "normalizeLng (normalizeLng v) = normalizeLng v"
    by (cases v) (simp_all add: normalizeLng_Fin normalizeLngFin_idem,
                  simp_all add: normalizeLng_def isFinite_def)
  then show ?thesis
    using normalizeLngFin_range[of x] normalizeLngFin_lower[of x]
    by (simp add: normalizeLng_def isFinite_def)
qed

text \<open>
  Counterexample to C3 as stated, at \<open>x = -180\<close>: the remainder \<open>-180 % 360\<close> is \<open>-180\<close>, neither
  correction applies, and the result \<open>-180\<close> is outside the half-open interval
  \<open>(-180, 180]\<close>.
\<close>

theorem normalizeLng_minus_180: "normalizeLng (Fin (- 180)) = Fin (- 180)"
  by (simp add: normalizeLng_Fin normalizeLngFin_def js_rem_def js_truncate_def)

subsection \<open>Great-circle distance\<close>

text \<open>
  In exact arithmetic the distance is symmetric, it is \<open>0\<close> from a point to itself, and
  the result is \<open>null\<close> when either argument is \<open>null\<close>.
\<close>

lemma haversineDistanceKm_exact:
  "haversineDistanceKm (Some a) (Some b) = haversineDistanceKm (Some b) (Some a)
   \<and> haversineDistanceKm (Some a) (Some a) = Some 0
   \<and> haversineDistanceKm None (t :: 'c geo_scheme option) = None
   \<and> haversineDistanceKm (s :: 'd geo_scheme option) None = None"
proof -
  have 1: "toRad (lat a - lat b) / 2 = - (toRad (lat b - lat a) / 2)"
    by (simp add: toRad_def field_simps)
  have 2: "toRad (lng a - lng b) / 2 = - (toRad (lng b - lng a) / 2)"
    by (simp add: toRad_def field_simps)
  have sym: "haversineDistanceKm (Some a) (Some b) = haversineDistanceKm (Some b) (Some a)"
    unfolding haversineDistanceKm_def Let_def by (simp add: 1 2 mult.commute mult.left_commute)
  have zero: "haversineDistanceKm (Some a) (Some a) = Some 0"
    by (simp add: haversineDistanceKm_def toRad_def atan2_def)
  have n1: "haversineDistanceKm None t = None"
    by (simp add: haversineDistanceKm_def)
  have n2: "haversineDistanceKm s None = None"
    by (cases s) (simp_all add: haversineDistanceKm_def)
  from sym zero n1 n2 show ?thesis by blast
qed

subsection \<open>Rounding to binary64\<close>

text \<open>
  \<open>round64_eval\<close> evaluates \<open>round64\<close>: a real \<open>x\<close> in the binade of \<open>e\<close> that is within
  half a unit in the last place of \<open>k * 2^(e-52)\<close> rounds to it.
\<close>

lemma pow2_powr: "pow2 e = 2 powr (of_int e)"
  by (simp add: pow2_def powr_real_of_int)

lemma pow2_pos: "0 < pow2 e"
  by (simp add: pow2_powr)

lemma pow2_add: "pow2 (a + b) = pow2 a * pow2 b"
  by (simp add: pow2_powr powr_add)

lemma pow2_mono: "a \<le> b \<Longrightarrow> pow2 a \<le> pow2 b"
  by (simp add: pow2_powr)

lemma binade_eq:
  assumes "pow2 e \<le> \<bar>x\<bar>" "\<bar>x\<bar> < pow2 (e + 1)"
  shows "binade x = e"
proof -
  have "0 < \<bar>x\<bar>" using assms(1) pow2_pos[of e] by linarith
  then show ?thesis
    unfolding binade_def using assms
    by (subst floor_log_eq_powr_iff) (simp_all add: pow2_powr)
qed

lemma round_even_near: "\<bar>r - of_int k\<bar> < 1 / 2 \<Longrightarrow> round_even r = k"
proof -
  assume h: "\<bar>r - of_int k\<bar> < 1 / 2"
  show ?thesis
  proof (cases "of_int k \<le> r")
    case True
    then have "\<lfloor>r\<rfloor> = k" using h by (simp add: floor_eq_iff abs_less_iff) 
    then show ?thesis using h True by (simp add: round_even_def Let_def abs_less_iff)
  next
    case False
    then have "\<lfloor>r\<rfloor> = k - 1" using h by (simp add: floor_eq_iff abs_less_iff)
    then show ?thesis using h False by (simp add: round_even_def Let_def abs_less_iff)
  qed
qed


lemma pow2_53: "pow2 53 = 9007199254740992"
  by (simp add: pow2_def)

lemma pow2_1: "pow2 1 = 2"
  by (simp add: pow2_def)

lemma pow2_split: "pow2 (e + 1) = pow2 (e - 52) * 9007199254740992"
proof -
  have "e + 1 = e - 52 + 53" by simp
  then have "pow2 (e + 1) = pow2 (e - 52 + 53)" by (rule arg_cong)
  also have "\<dots> = pow2 (e - 52) * pow2 53" by (rule pow2_add)
  finally show ?thesis unfolding pow2_53 .
qed

lemma pow2_double: "pow2 (e + 1) = pow2 e * 2"
  using pow2_add[of e 1] unfolding pow2_1 .

lemma int_abs_bound:
  assumes "\<bar>real_of_int k\<bar> < 9007199254740992 + 1 / 2"
  shows "\<bar>k\<bar> \<le> 9007199254740992"
proof -
  have "real_of_int \<bar>k\<bar> < real_of_int 9007199254740993" using assms by simp
  then have "\<bar>k\<bar> < 9007199254740993" by (simp only: of_int_less_iff)
  then show ?thesis by simp
qed

lemma round64_eval_aux:
  assumes "pow2 e \<le> \<bar>x\<bar>" "\<bar>x\<bar> \<le> pow2 (e + 1)" "e \<le> 1022"
    and "\<bar>x / pow2 (e - 52) - of_int k\<bar> < 1 / 2"
  shows "\<bar>pow2 (e - 52) * of_int k\<bar> < pow2 1024" "\<bar>k\<bar> \<le> 9007199254740992"
proof -
  have u: "0 < pow2 (e - 52)" by (rule pow2_pos)
  have "\<bar>x\<bar> / pow2 (e - 52) \<le> 9007199254740992"
    using assms(2) u unfolding pow2_split by (simp add: pos_divide_le_eq mult.commute)
  then have "\<bar>x / pow2 (e - 52)\<bar> \<le> 9007199254740992" using u by (simp add: abs_divide)
  then have "\<bar>real_of_int k\<bar> < 9007199254740992 + 1 / 2" using assms(4) by linarith
  then show k: "\<bar>k\<bar> \<le> 9007199254740992" by (rule int_abs_bound)
  then have "real_of_int \<bar>k\<bar> \<le> real_of_int 9007199254740992" by (simp only: of_int_le_iff)
  then have kr: "\<bar>real_of_int k\<bar> \<le> 9007199254740992" by simp
  have "\<bar>pow2 (e - 52) * of_int k\<bar> = pow2 (e - 52) * \<bar>real_of_int k\<bar>"
    using u by (simp add: abs_mult)
  also have "\<dots> \<le> pow2 (e - 52) * 9007199254740992"
    using kr u by (intro mult_left_mono) simp_all
  also have "\<dots> = pow2 (e + 1)" by (simp only: pow2_split)
  also have "\<dots> \<le> pow2 1023" using assms(3) by (intro pow2_mono) simp
  also have "\<dots> < pow2 1024" unfolding pow2_double[of 1023, simplified] using pow2_pos[of 1023] by simp
  finally show "\<bar>pow2 (e - 52) * of_int k\<bar> < pow2 1024" .
qed


lemma int_near:
  assumes "\<bar>real_of_int j - real_of_int k\<bar> < 1 / 2"
  shows "j = k"
proof -
  have "real_of_int \<bar>j - k\<bar> < real_of_int 1" using assms by simp
  then have "\<bar>j - k\<bar> < 1" by (simp only: of_int_less_iff)
  then show ?thesis by simp
qed

lemma round64_unfold:
  assumes "x \<noteq> 0" "binade x = b" "- 1022 \<le> b"
    and "round_even (x / pow2 (b - 52)) = j" "\<bar>pow2 (b - 52) * of_int j\<bar> < pow2 1024"
  shows "round64 x = Fin (pow2 (b - 52) * of_int j)"
proof -
  have m: "max b (- 1022) = b" using assms(3) by simp
  show ?thesis
    unfolding round64_def Let_def assms(2) m assms(4) using assms(1,5) by simp
qed

lemma round64_eval:
  assumes "pow2 e \<le> \<bar>x\<bar>" "\<bar>x\<bar> \<le> pow2 (e + 1)" "- 1022 \<le> e" "e \<le> 1022"
    and "\<bar>x / pow2 (e - 52) - of_int k\<bar> < 1 / 2"
  shows "round64 x = Fin (pow2 (e - 52) * of_int k)"
proof -
  have x0: "x \<noteq> 0" using assms(1) pow2_pos[of e] by auto
  have u: "0 < pow2 (e - 52)" by (rule pow2_pos)
  note aux = round64_eval_aux[OF assms(1,2,4,5)]
  show ?thesis
  proof (cases "\<bar>x\<bar> < pow2 (e + 1)")
    case True
    have b: "binade x = e" using assms(1) True by (rule binade_eq)
    show ?thesis
      using x0 b assms(3) round_even_near[OF assms(5)] aux(1) by (rule round64_unfold)
  next
    case False
    with assms(2) have top: "\<bar>x\<bar> = pow2 (e - 52) * 9007199254740992"
      unfolding pow2_split by simp
    have "pow2 (e + 1) \<le> \<bar>x\<bar>" "\<bar>x\<bar> < pow2 (e + 1 + 1)"
      using False assms(2) pow2_double[of "e + 1"] pow2_pos[of "e + 1"] by simp_all
    then have b: "binade x = e + 1" by (rule binade_eq)
    have "e + 1 - 52 = e - 52 + 1" by simp
    then have "pow2 (e + 1 - 52) = pow2 (e - 52 + 1)" by (rule arg_cong)
    then have u2: "pow2 (e + 1 - 52) = pow2 (e - 52) * 2" unfolding pow2_double .
    define sg :: int where "sg = (if 0 < x then 1 else - 1)"
    have xs: "x = pow2 (e - 52) * (of_int sg * 9007199254740992)"
      using top x0 by (cases "0 < x") (simp_all add: sg_def)
    have q1: "x / pow2 (e - 52) = of_int (sg * 9007199254740992)"
      using u by (subst xs) simp
    have q2: "x / pow2 (e + 1 - 52) = of_int (sg * 4503599627370496)"
      unfolding u2 using u by (subst xs) simp
    have k: "sg * 9007199254740992 = k"
      using assms(5) unfolding q1 by (rule int_near)
    have re: "round_even (x / pow2 (e + 1 - 52)) = sg * 4503599627370496"
      unfolding q2 by (rule round_even_near) simp
    have val: "pow2 (e + 1 - 52) * of_int (sg * 4503599627370496) = pow2 (e - 52) * of_int k"
      unfolding u2 k[symmetric] by simp
    have small: "\<bar>pow2 (e + 1 - 52) * of_int (sg * 4503599627370496)\<bar> < pow2 1024"
      unfolding val by (rule aux(1))
    have "round64 x = Fin (pow2 (e + 1 - 52) * of_int (sg * 4503599627370496))"
      using x0 b _ re small by (rule round64_unfold) (use assms(3) in simp)
    then show ?thesis unfolding val .
  qed
qed

lemma sum_lessThan_numeral:
  "(\<Sum>m<numeral k. f m) = (\<Sum>m<pred_numeral k. f m) + (f (pred_numeral k) :: real)"
  by (simp add: numeral_eq_Suc)

lemma sum_lessThan_1: "(\<Sum>m<(1 :: nat). f m) = (f 0 :: real)"
  by simp

lemma sin_enclosure:
  assumes "lo + inverse (fact n) * \<bar>x\<bar> ^ n < (\<Sum>m<n. sin_coeff m * x ^ m)"
    and "(\<Sum>m<n. sin_coeff m * x ^ m) + inverse (fact n) * \<bar>x\<bar> ^ n < hi"
  shows "lo < sin x \<and> sin x < hi"
  using Maclaurin_sin_bound[of x n] assms by (simp add: abs_le_iff)

lemma cos_enclosure:
  assumes "lo + \<bar>x\<bar> ^ n / fact n < (\<Sum>m<n. cos_coeff m * x ^ m)"
    and "(\<Sum>m<n. cos_coeff m * x ^ m) + \<bar>x\<bar> ^ n / fact n < hi"
  shows "lo < cos x \<and> cos x < hi"
proof -
  obtain t where t: "cos x = (\<Sum>m<n. cos_coeff m * x ^ m)
                        + (cos (t + 1 / 2 * real n * pi) / fact n) * x ^ n"
    using Maclaurin_cos_expansion[of x n] by blast
  define r where "r = cos (t + 1 / 2 * real n * pi)"
  have r: "\<bar>r\<bar> \<le> 1" unfolding r_def by (rule abs_cos_le_one)
  have "\<bar>(r / fact n) * x ^ n\<bar> = \<bar>r\<bar> * (\<bar>x\<bar> ^ n / fact n)"
    by (simp add: abs_mult power_abs)
  also have "\<dots> \<le> 1 * (\<bar>x\<bar> ^ n / fact n)"
    using r by (intro mult_right_mono) simp_all
  finally have "\<bar>(r / fact n) * x ^ n\<bar> \<le> \<bar>x\<bar> ^ n / fact n" by simp
  then have "\<bar>cos x - (\<Sum>m<n. cos_coeff m * x ^ m)\<bar> \<le> \<bar>x\<bar> ^ n / fact n"
    unfolding t r_def by simp
  with assms show ?thesis by linarith
qed

lemma round64_pos_interval:
  assumes "(of_int k - 1 / 2) * pow2 (e - 52) < x" "x < (of_int k + 1 / 2) * pow2 (e - 52)"
    and "4503599627370496 < k" "k < 9007199254740992" "- 1022 \<le> e" "e \<le> 1022"
  shows "round64 x = Fin (pow2 (e - 52) * of_int k)"
    and "round64 (- x) = Fin (- (pow2 (e - 52) * of_int k))"
proof -
  let ?u = "pow2 (e - 52)"
  have u: "0 < ?u" by (rule pow2_pos)
  have "e = e - 52 + 52" by simp
  then have "pow2 e = pow2 (e - 52 + 52)" by (rule arg_cong)
  also have "\<dots> = ?u * pow2 52" by (rule pow2_add)
  finally have pe: "pow2 e = ?u * 4503599627370496" by (simp add: pow2_def)
  have k1: "(4503599627370496 :: real) \<le> of_int k - 1 / 2"
  proof -
    have "4503599627370497 \<le> k" using assms(3) by simp
    then have "real_of_int 4503599627370497 \<le> real_of_int k" by (simp only: of_int_le_iff)
    then show ?thesis by simp
  qed
  have k2: "of_int k + 1 / 2 \<le> (9007199254740992 :: real)"
  proof -
    have "k \<le> 9007199254740991" using assms(4) by simp
    then have "real_of_int k \<le> real_of_int 9007199254740991" by (simp only: of_int_le_iff)
    then show ?thesis by simp
  qed
  have lo: "pow2 e \<le> x"
  proof -
    have "?u * 4503599627370496 \<le> ?u * (of_int k - 1 / 2)" using k1 u by (intro mult_left_mono) simp_all
    then show ?thesis using assms(1) unfolding pe by (simp add: mult.commute)
  qed
  have hi: "x \<le> pow2 (e + 1)"
  proof -
    have "?u * (of_int k + 1 / 2) \<le> ?u * 9007199254740992" using k2 u by (intro mult_left_mono) simp_all
    then show ?thesis using assms(2) unfolding pow2_split by (simp add: mult.commute)
  qed
  have xpos: "0 < x" using lo pow2_pos[of e] by linarith
  have q: "\<bar>x / ?u - of_int k\<bar> < 1 / 2"
  proof -
    have "of_int k - 1 / 2 < x / ?u" using assms(1) u by (simp add: pos_less_divide_eq)
    moreover have "x / ?u < of_int k + 1 / 2" using assms(2) u by (simp add: pos_divide_less_eq)
    ultimately show ?thesis by linarith
  qed
  show "round64 x = Fin (?u * of_int k)"
    using lo hi xpos assms(5,6) q by (intro round64_eval) simp_all
  have eq: "(- x) / ?u - of_int (- k) = - (x / ?u - of_int k)" by simp
  have q': "\<bar>(- x) / ?u - of_int (- k)\<bar> < 1 / 2"
    unfolding eq abs_minus_cancel by (rule q)
  have "round64 (- x) = Fin (?u * of_int (- k))"
    using lo hi xpos assms(5,6) q' by (intro round64_eval) simp_all
  then show "round64 (- x) = Fin (- (?u * of_int k))" by simp
qed

subsection \<open>Sine and cosine at the arguments of the example\<close>

text \<open>
  Enclosures from the Maclaurin series with the Lagrange remainder: \<open>toRad(8)\<close> is
  \<open>5030569068109113 / 2^55\<close> and \<open>toRad(180) / 2\<close> is \<open>884279719003555 / 2^49\<close>.
\<close>

lemma sin_theta:
  "(5014239404989977 - 1 / 2) / 36028797018963968 < sin (5030569068109113 / 36028797018963968 :: real)
   \<and> sin (5030569068109113 / 36028797018963968 :: real) < (5014239404989977 + 1 / 2) / 36028797018963968"
  by (rule sin_enclosure[where n = 13])
     (simp_all add: sum_lessThan_numeral sum_lessThan_1 sin_coeff_def fact_numeral power_divide)

lemma cos_theta:
  "(8919541810762874 - 1 / 2) / 9007199254740992 < cos (5030569068109113 / 36028797018963968 :: real)
   \<and> cos (5030569068109113 / 36028797018963968 :: real) < (8919541810762874 + 1 / 2) / 9007199254740992"
  by (rule cos_enclosure[where n = 12])
     (simp_all add: sum_lessThan_numeral sum_lessThan_1 cos_coeff_def fact_numeral power_divide)

lemma sin_half_pi:
  "(9007199254740992 - 1 / 2) / 9007199254740992 < sin (884279719003555 / 562949953421312 :: real)
   \<and> sin (884279719003555 / 562949953421312 :: real) < 2"
  by (rule sin_enclosure[where n = 23])
     (simp_all add: sum_lessThan_numeral sum_lessThan_1 sin_coeff_def fact_numeral power_divide)

lemma round64_sin_theta:
  "round64 (sin (5030569068109113 / 36028797018963968)) = Fin (5014239404989977 / 36028797018963968)"
  using round64_pos_interval(1)[of 5014239404989977 "- 3" "sin (5030569068109113 / 36028797018963968)"]
    sin_theta by (simp add: pow2_def)

lemma round64_sin_minus_theta:
  "round64 (- sin (5030569068109113 / 36028797018963968)) = Fin (- (5014239404989977 / 36028797018963968))"
  using round64_pos_interval(2)[of 5014239404989977 "- 3" "sin (5030569068109113 / 36028797018963968)"]
    sin_theta by (simp add: pow2_def)

lemma round64_cos_theta:
  "round64 (cos (5030569068109113 / 36028797018963968)) = Fin (4459770905381437 / 4503599627370496)"
  using round64_pos_interval(1)[of 8919541810762874 "- 1" "cos (5030569068109113 / 36028797018963968)"]
    cos_theta by (simp add: pow2_def)

lemma round64_sin_half_pi:
  "round64 (sin (884279719003555 / 562949953421312)) = Fin 1"
proof -
  let ?x = "sin (884279719003555 / 562949953421312 :: real)"
  have lo: "(9007199254740992 - 1 / 2) / 9007199254740992 < ?x" using sin_half_pi by simp
  have hi: "?x \<le> 1" by (rule sin_le_one)
  have "\<bar>?x / pow2 (- 1 - 52) - of_int 9007199254740992\<bar> < 1 / 2"
    using lo hi by (simp add: pow2_def abs_less_iff)
  moreover have "pow2 (- 1) \<le> \<bar>?x\<bar>" using lo by (simp add: pow2_def)
  moreover have "\<bar>?x\<bar> \<le> pow2 (- 1 + 1)" using lo hi by (simp add: pow2_def)
  ultimately have "round64 ?x = Fin (pow2 (- 1 - 52) * of_int 9007199254740992)"
    by (intro round64_eval) simp_all
  then show ?thesis by (simp add: pow2_def)
qed

lemma round64_sin_minus_half_pi:
  "round64 (- sin (884279719003555 / 562949953421312)) = Fin (- 1)"
proof -
  let ?x = "sin (884279719003555 / 562949953421312 :: real)"
  have lo: "(9007199254740992 - 1 / 2) / 9007199254740992 < ?x" using sin_half_pi by simp
  have hi: "?x \<le> 1" by (rule sin_le_one)
  have "\<bar>(- ?x) / pow2 (- 1 - 52) - of_int (- 9007199254740992)\<bar> < 1 / 2"
    using lo hi by (simp add: pow2_def abs_less_iff)
  moreover have "pow2 (- 1) \<le> \<bar>- ?x\<bar>" using lo by (simp add: pow2_def)
  moreover have "\<bar>- ?x\<bar> \<le> pow2 (- 1 + 1)" using lo hi by (simp add: pow2_def)
  ultimately have "round64 (- ?x) = Fin (pow2 (- 1 - 52) * of_int (- 9007199254740992))"
    by (intro round64_eval) simp_all
  then show ?thesis by (simp add: pow2_def)
qed

lemma mathSin_theta:
  "mathSin (Fin (5030569068109113 / 36028797018963968)) = Fin (5014239404989977 / 36028797018963968)"
  by (simp add: round64_sin_theta)

lemma mathSin_minus_theta:
  "mathSin (Fin (- (5030569068109113 / 36028797018963968)))
     = Fin (- (5014239404989977 / 36028797018963968))"
  by (simp add: round64_sin_minus_theta)

lemma mathCos_theta:
  "mathCos (Fin (5030569068109113 / 36028797018963968)) = Fin (4459770905381437 / 4503599627370496)"
  by (simp add: round64_cos_theta)

lemma mathCos_minus_theta:
  "mathCos (Fin (- (5030569068109113 / 36028797018963968))) = Fin (4459770905381437 / 4503599627370496)"
  by (simp add: round64_cos_theta)

lemma mathSin_half_pi: "mathSin (Fin (884279719003555 / 562949953421312)) = Fin 1"
  by (simp add: round64_sin_half_pi)

lemma mathSin_minus_half_pi: "mathSin (Fin (- (884279719003555 / 562949953421312))) = Fin (- 1)"
  by (simp add: round64_sin_minus_half_pi)

lemma mathSqrt_negative: "mathSqrt (Fin (- (1 / 4503599627370496))) = NaN"
  by simp

lemma mathAtan2_NaN: "mathAtan2 y NaN = NaN"
  by (cases y) simp_all

lemma js_mul_NaN: "js_mul x NaN = NaN"
  by (cases x) simp_all

subsection \<open>The operations of the distance function on the example\<close>

text \<open>
  Every rounded operation that \<open>haversineDistanceKm\<close> performs on the points
  \<open>(8, 0)\<close> and \<open>(-8, 180)\<close>, in both orders of the arguments.
\<close>

lemma sub_lat_ab: "js_sub (Fin (- 8)) (Fin 8) = Fin (- 16)"
  using round64_eval[of "4" "(- 8) - 8" "- 4503599627370496"] by (simp add: pow2_def)

lemma mul_pi_m16: "js_mul (Fin (- 16)) (Fin (884279719003555 / 281474976710656)) = Fin (- (884279719003555 / 17592186044416))"
  using round64_eval[of "5" "(- 16) * (884279719003555 / 281474976710656)" "- 7074237752028440"] by (simp add: pow2_def)

lemma div_180_m16: "js_div (Fin (- (884279719003555 / 17592186044416))) (Fin 180) = Fin (- (5030569068109113 / 18014398509481984))"
  using round64_eval[of "- 2" "(- (884279719003555 / 17592186044416)) / 180" "- 5030569068109113"] by (simp add: pow2_def)

lemma half_dlat_ab: "js_div (Fin (- (5030569068109113 / 18014398509481984))) (Fin 2) = Fin (- (5030569068109113 / 36028797018963968))"
  using round64_eval[of "- 3" "(- (5030569068109113 / 18014398509481984)) / 2" "- 5030569068109113"] by (simp add: pow2_def)

lemma sub_lng_ab: "js_sub (Fin 180) (Fin 0) = Fin 180"
  using round64_eval[of "7" "180 - 0" "6333186975989760"] by (simp add: pow2_def)

lemma mul_pi_180: "js_mul (Fin 180) (Fin (884279719003555 / 281474976710656)) = Fin (4974073419394997 / 8796093022208)"
  using round64_eval[of "9" "180 * (884279719003555 / 281474976710656)" "4974073419394997"] by (simp add: pow2_def)

lemma div_180_180: "js_div (Fin (4974073419394997 / 8796093022208)) (Fin 180) = Fin (884279719003555 / 281474976710656)"
  using round64_eval[of "1" "(4974073419394997 / 8796093022208) / 180" "7074237752028440"] by (simp add: pow2_def)

lemma half_dlon_ab: "js_div (Fin (884279719003555 / 281474976710656)) (Fin 2) = Fin (884279719003555 / 562949953421312)"
  using round64_eval[of "0" "(884279719003555 / 281474976710656) / 2" "7074237752028440"] by (simp add: pow2_def)

lemma mul_pi_8: "js_mul (Fin 8) (Fin (884279719003555 / 281474976710656)) = Fin (884279719003555 / 35184372088832)"
  using round64_eval[of "4" "8 * (884279719003555 / 281474976710656)" "7074237752028440"] by (simp add: pow2_def)

lemma div_180_8: "js_div (Fin (884279719003555 / 35184372088832)) (Fin 180) = Fin (5030569068109113 / 36028797018963968)"
  using round64_eval[of "- 3" "(884279719003555 / 35184372088832) / 180" "5030569068109113"] by (simp add: pow2_def)

lemma mul_pi_m8: "js_mul (Fin (- 8)) (Fin (884279719003555 / 281474976710656)) = Fin (- (884279719003555 / 35184372088832))"
  using round64_eval[of "4" "(- 8) * (884279719003555 / 281474976710656)" "- 7074237752028440"] by (simp add: pow2_def)

lemma div_180_m8: "js_div (Fin (- (884279719003555 / 35184372088832))) (Fin 180) = Fin (- (5030569068109113 / 36028797018963968))"
  using round64_eval[of "- 3" "(- (884279719003555 / 35184372088832)) / 180" "- 5030569068109113"] by (simp add: pow2_def)

lemma sq_sin_neg: "js_mul (Fin (- (5014239404989977 / 36028797018963968))) (Fin (- (5014239404989977 / 36028797018963968))) = Fin (1395694493897217 / 72057594037927936)"
  using round64_eval[of "- 6" "(- (5014239404989977 / 36028797018963968)) * (- (5014239404989977 / 36028797018963968))" "5582777975588868"] by (simp add: pow2_def)

lemma mul_1_1: "js_mul (Fin 1) (Fin 1) = Fin 1"
  using round64_eval[of "0" "1 * 1" "4503599627370496"] by (simp add: pow2_def)

lemma mul_1_c: "js_mul (Fin 1) (Fin (4459770905381437 / 4503599627370496)) = Fin (4459770905381437 / 4503599627370496)"
  using round64_eval[of "- 1" "1 * (4459770905381437 / 4503599627370496)" "8919541810762874"] by (simp add: pow2_def)

lemma mul_c_c: "js_mul (Fin (4459770905381437 / 4503599627370496)) (Fin (4459770905381437 / 4503599627370496)) = Fin (8832737443003841 / 9007199254740992)"
  using round64_eval[of "- 1" "(4459770905381437 / 4503599627370496) * (4459770905381437 / 4503599627370496)" "8832737443003841"] by (simp add: pow2_def)

lemma add_a: "js_add (Fin (1395694493897217 / 72057594037927936)) (Fin (8832737443003841 / 9007199254740992)) = Fin (4503599627370497 / 4503599627370496)"
  using round64_eval[of "0" "(1395694493897217 / 72057594037927936) + (8832737443003841 / 9007199254740992)" "4503599627370497"] by (simp add: pow2_def)

lemma sub_1_a: "js_sub (Fin 1) (Fin (4503599627370497 / 4503599627370496)) = Fin (- (1 / 4503599627370496))"
  using round64_eval[of "- 52" "1 - (4503599627370497 / 4503599627370496)" "- 4503599627370496"] by (simp add: pow2_def)

lemma sub_lat_ba: "js_sub (Fin 8) (Fin (- 8)) = Fin 16"
  using round64_eval[of "4" "8 - (- 8)" "4503599627370496"] by (simp add: pow2_def)

lemma mul_pi_16: "js_mul (Fin 16) (Fin (884279719003555 / 281474976710656)) = Fin (884279719003555 / 17592186044416)"
  using round64_eval[of "5" "16 * (884279719003555 / 281474976710656)" "7074237752028440"] by (simp add: pow2_def)

lemma div_180_16: "js_div (Fin (884279719003555 / 17592186044416)) (Fin 180) = Fin (5030569068109113 / 18014398509481984)"
  using round64_eval[of "- 2" "(884279719003555 / 17592186044416) / 180" "5030569068109113"] by (simp add: pow2_def)

lemma half_dlat_ba: "js_div (Fin (5030569068109113 / 18014398509481984)) (Fin 2) = Fin (5030569068109113 / 36028797018963968)"
  using round64_eval[of "- 3" "(5030569068109113 / 18014398509481984) / 2" "5030569068109113"] by (simp add: pow2_def)

lemma sub_lng_ba: "js_sub (Fin 0) (Fin 180) = Fin (- 180)"
  using round64_eval[of "7" "0 - 180" "- 6333186975989760"] by (simp add: pow2_def)

lemma mul_pi_m180: "js_mul (Fin (- 180)) (Fin (884279719003555 / 281474976710656)) = Fin (- (4974073419394997 / 8796093022208))"
  using round64_eval[of "9" "(- 180) * (884279719003555 / 281474976710656)" "- 4974073419394997"] by (simp add: pow2_def)

lemma div_180_m180: "js_div (Fin (- (4974073419394997 / 8796093022208))) (Fin 180) = Fin (- (884279719003555 / 281474976710656))"
  using round64_eval[of "1" "(- (4974073419394997 / 8796093022208)) / 180" "- 7074237752028440"] by (simp add: pow2_def)

lemma half_dlon_ba: "js_div (Fin (- (884279719003555 / 281474976710656))) (Fin 2) = Fin (- (884279719003555 / 562949953421312))"
  using round64_eval[of "0" "(- (884279719003555 / 281474976710656)) / 2" "- 7074237752028440"] by (simp add: pow2_def)

lemma sq_sin_pos: "js_mul (Fin (5014239404989977 / 36028797018963968)) (Fin (5014239404989977 / 36028797018963968)) = Fin (1395694493897217 / 72057594037927936)"
  using round64_eval[of "- 6" "(5014239404989977 / 36028797018963968) * (5014239404989977 / 36028797018963968)" "5582777975588868"] by (simp add: pow2_def)

lemma mul_m1_m1: "js_mul (Fin (- 1)) (Fin (- 1)) = Fin 1"
  using round64_eval[of "0" "(- 1) * (- 1)" "4503599627370496"] by (simp add: pow2_def)

lemma haversine64_a_sum:
  "js_add (js_mul (mathSin (Fin (- (5030569068109113 / 36028797018963968))))
                  (mathSin (Fin (- (5030569068109113 / 36028797018963968)))))
          (js_mul (js_mul (js_mul (mathSin (Fin (884279719003555 / 562949953421312)))
                                  (mathSin (Fin (884279719003555 / 562949953421312))))
                          (mathCos (Fin (5030569068109113 / 36028797018963968))))
                  (mathCos (Fin (- (5030569068109113 / 36028797018963968)))))
     = Fin (4503599627370497 / 4503599627370496)"
  by (simp only: mathSin_minus_theta mathSin_half_pi mathCos_theta mathCos_minus_theta
        sq_sin_neg mul_1_1 mul_1_c mul_c_c add_a)

lemma haversine64_a_sum_swapped:
  "js_add (js_mul (mathSin (Fin (5030569068109113 / 36028797018963968)))
                  (mathSin (Fin (5030569068109113 / 36028797018963968))))
          (js_mul (js_mul (js_mul (mathSin (Fin (- (884279719003555 / 562949953421312))))
                                  (mathSin (Fin (- (884279719003555 / 562949953421312)))))
                          (mathCos (Fin (- (5030569068109113 / 36028797018963968)))))
                  (mathCos (Fin (5030569068109113 / 36028797018963968))))
     = Fin (4503599627370497 / 4503599627370496)"
  by (simp only: mathSin_theta mathSin_minus_half_pi mathCos_theta mathCos_minus_theta
        sq_sin_pos mul_m1_m1 mul_1_c mul_c_c add_a)

lemma haversine64_tail:
  "js_mul (Fin 6371)
     (js_mul (Fin 2)
        (mathAtan2 (mathSqrt (Fin (4503599627370497 / 4503599627370496)))
                   (mathSqrt (js_sub (Fin 1) (Fin (4503599627370497 / 4503599627370496))))))
     = NaN"
  by (simp only: sub_1_a mathSqrt_negative mathAtan2_NaN js_mul_NaN)

subsection \<open>Great-circle distance in binary64\<close>

text \<open>
  Claim C9 says that for every pair of points \<open>a\<close> and \<open>b\<close> the distance from \<open>a\<close> to
  \<open>b\<close> equals the distance from \<open>b\<close> to \<open>a\<close>. In the program's arithmetic it does not
  hold: for the points \<open>(lat 8, lng 0)\<close> and \<open>(lat -8, lng 180)\<close>, which lie opposite
  each other on the globe, the sum \<open>a\<close> of the two rounded terms is \<open>1 + 2^(-52)\<close>, so
  \<open>1 - a\<close> is negative, \<open>Math.sqrt(1 - a)\<close> is \<open>NaN\<close>, and the function returns \<open>NaN\<close> in
  both orders of the arguments; \<open>NaN\<close> equals no number, itself included, so the two
  results are not equal and neither is a distance.
\<close>

theorem haversineDistanceKm64_antipodal_NaN:
  "haversineDistanceKm64 (Some \<lparr>lat = 8, lng = 0\<rparr>) (Some \<lparr>lat = - 8, lng = 180\<rparr>) = Some NaN
   \<and> haversineDistanceKm64 (Some \<lparr>lat = - 8, lng = 180\<rparr>) (Some \<lparr>lat = 8, lng = 0\<rparr>) = Some NaN
   \<and> \<not> js_eq NaN NaN"
proof -
  have ab: "haversineDistanceKm64 (Some \<lparr>lat = 8, lng = 0\<rparr>) (Some \<lparr>lat = - 8, lng = 180\<rparr>)
              = Some NaN"
    by (simp only: haversineDistanceKm64_def Let_def toRad64_def MATH_PI_def prod.case option.case
          geo.select_convs sub_lat_ab mul_pi_m16 div_180_m16 half_dlat_ab
          sub_lng_ab mul_pi_180 div_180_180 half_dlon_ab mul_pi_8 div_180_8 mul_pi_m8 div_180_m8
          haversine64_a_sum haversine64_tail)
  have ba: "haversineDistanceKm64 (Some \<lparr>lat = - 8, lng = 180\<rparr>) (Some \<lparr>lat = 8, lng = 0\<rparr>)
              = Some NaN"
    by (simp only: haversineDistanceKm64_def Let_def toRad64_def MATH_PI_def prod.case option.case
          geo.select_convs sub_lat_ba mul_pi_16 div_180_16 half_dlat_ba
          sub_lng_ba mul_pi_m180 div_180_m180 half_dlon_ba mul_pi_8 div_180_8 mul_pi_m8 div_180_m8
          haversine64_a_sum_swapped haversine64_tail)
  have "\<not> js_eq NaN NaN" by simp
  with ab ba show ?thesis by simp
qed

subsection \<open>Live telemetry\<close>

text \<open>
  Claim C8. When the telemetry fetch fails (the fetch rejects, the response is not
  \<open>ok\<close>, or reading its body throws), the position and the history are what they
  were; the error message is set, unless the effect was cancelled, in which case
  the whole state is unchanged.
\<close>

theorem fetchIssData_failure_keeps_state:
  "issPosition (fetchIssData cancelled (Rejected message) st) = issPosition st
   \<and> issHistory (fetchIssData cancelled (Rejected message) st) = issHistory st
   \<and> issPosition (fetchIssData cancelled (Response False content) st) = issPosition st
   \<and> issHistory (fetchIssData cancelled (Response False content) st) = issHistory st
   \<and> issPosition (fetchIssData cancelled (Response True (JsonThrows message)) st) = issPosition st
   \<and> issHistory (fetchIssData cancelled (Response True (JsonThrows message)) st) = issHistory st
   \<and> error (fetchIssData False (Rejected message) st) = Some message
   \<and> error (fetchIssData False (Response False content) st)
       = Some ''No se pudo leer la telemetria de la ISS''
   \<and> error (fetchIssData False (Response True (JsonThrows message)) st) = Some message
   \<and> fetchIssData True (Rejected message) st = st
   \<and> fetchIssData True (Response False content) st = st
   \<and> fetchIssData True (Response True (JsonThrows message)) st = st"
  by (simp add: fetchIssData_def catchError_def)

subsection \<open>Polyline segmentation\<close>

lemma splitRuns_nonempty: "zs \<noteq> [] \<Longrightarrow> splitRuns zs \<noteq> []"
  by (cases zs rule: splitRuns.cases) (auto split: list.splits)

lemma splitRuns_Cons_ex: "\<exists>r rs. splitRuns (d # rest) = r # rs"
  using splitRuns_nonempty[of "d # rest"] by (cases "splitRuns (d # rest)") auto

lemma splitRuns_concat: "concat (splitRuns zs) = zs"
proof (induction zs rule: splitRuns.induct)
  case (3 c d rest)
  obtain q qs where q: "splitRuns (d # rest) = q # qs" using splitRuns_Cons_ex by blast
  with 3 show ?case by (cases "isJump c d") auto
qed auto

lemma splitRuns_runs_nonempty: "r \<in> set (splitRuns zs) \<Longrightarrow> r \<noteq> []"
proof (induction zs arbitrary: r rule: splitRuns.induct)
  case (3 c d rest)
  obtain q qs where q: "splitRuns (d # rest) = q # qs" using splitRuns_Cons_ex by blast
  with 3 show ?case by (cases "isJump c d") auto
qed auto

lemma splitRuns_length: "zs \<noteq> [] \<Longrightarrow> length (splitRuns zs) = Suc (jumpCount zs)"
proof (induction zs rule: splitRuns.induct)
  case (3 c d rest)
  obtain q qs where q: "splitRuns (d # rest) = q # qs" using splitRuns_Cons_ex by blast
  with 3 show ?case by (cases "isJump c d") auto
qed auto

lemma splitRuns_no_jump: "zs \<noteq> [] \<Longrightarrow> jumpCount zs = 0 \<Longrightarrow> splitRuns zs = [zs]"
  by (induction zs rule: splitRuns.induct) (auto split: list.splits if_splits)

lemma last_last_splitRuns: "zs \<noteq> [] \<Longrightarrow> last (last (splitRuns zs)) = last zs"
proof (induction zs rule: splitRuns.induct)
  case (3 c d rest)
  obtain q qs where q: "splitRuns (d # rest) = q # qs" using splitRuns_Cons_ex by blast
  have "q \<noteq> []" using splitRuns_runs_nonempty[of q "d # rest"] q by simp
  with 3 q show ?case by (cases "isJump c d"; cases qs) auto
qed auto

lemma splitRuns_snoc:
  "zs \<noteq> [] \<Longrightarrow>
   splitRuns (zs @ [c]) =
     (if isJump (last zs) c then splitRuns zs @ [[c]]
      else butlast (splitRuns zs) @ [last (splitRuns zs) @ [c]])"
proof (induction zs rule: splitRuns.induct)
  case 1
  then show ?case by simp
next
  case (2 a)
  then show ?case by simp
next
  case (3 a b rest)
  have ne: "splitRuns (b # rest) \<noteq> []" by (rule splitRuns_nonempty) simp
  then obtain r rs where rrs: "splitRuns (b # rest) = r # rs" by (cases "splitRuns (b # rest)") auto
  have ne2: "splitRuns (b # rest @ [c]) \<noteq> []" by (rule splitRuns_nonempty) simp
  from 3 have IH: "splitRuns (b # rest @ [c]) =
     (if isJump (last (b # rest)) c then splitRuns (b # rest) @ [[c]]
      else butlast (splitRuns (b # rest)) @ [last (splitRuns (b # rest)) @ [c]])"
    by (cases "isJump a b") simp_all
  show ?case
    using IH rrs by (cases rs) (auto split: list.splits)
qed


lemma segFold_snoc: "segFold n (xs @ [x]) = segStep n (segFold n xs) (x, length xs)"
  by (simp add: segFold_def)

lemma pathCoords_snoc: "pathCoords (xs @ [x]) = pathCoords xs @ [(lat x, lng x)]"
  by (simp add: pathCoords_def)

lemma pathCoords_Nil_iff: "pathCoords xs = [] \<longleftrightarrow> xs = []"
  by (simp add: pathCoords_def)

lemma segFold_prefix:
  "xs \<noteq> [] \<Longrightarrow> length xs < n \<Longrightarrow>
   segFold n xs = \<lparr>segments = filter (\<lambda>r. 2 \<le> length r) (butlast (splitRuns (pathCoords xs))),
                  current = last (splitRuns (pathCoords xs))\<rparr>"
proof (induction xs rule: rev_induct)
  case Nil
  then show ?case by simp
next
  case (snoc x ys)
  show ?case
  proof (cases "ys = []")
    case True
    with snoc.prems show ?thesis
      by (simp add: segFold_def segStep_def Let_def pathCoords_def)
  next
    case False
    let ?zs = "pathCoords ys"
    have zs: "?zs \<noteq> []" using False by (simp add: pathCoords_Nil_iff)
    have IH: "segFold n ys = \<lparr>segments = filter (\<lambda>r. 2 \<le> length r) (butlast (splitRuns ?zs)),
                  current = last (splitRuns ?zs)\<rparr>"
      using snoc.IH[OF False] snoc.prems by simp
    have sne: "splitRuns ?zs \<noteq> []" using zs by (rule splitRuns_nonempty)
    have cur: "last (splitRuns ?zs) \<noteq> []"
      using splitRuns_runs_nonempty[of "last (splitRuns ?zs)" ?zs] sne by simp
    have lastlast: "last (last (splitRuns ?zs)) = last ?zs" using zs by (rule last_last_splitRuns)
    have idx: "length ys \<noteq> n - 1" using snoc.prems by simp
    have bl: "splitRuns ?zs = butlast (splitRuns ?zs) @ [last (splitRuns ?zs)]"
      using sne by simp
    show ?thesis
    proof (cases "isJump (last ?zs) (lat x, lng x)")
      case True
      have "filter (\<lambda>r. 2 \<le> length r) (splitRuns ?zs)
            = filter (\<lambda>r. 2 \<le> length r) (butlast (splitRuns ?zs))
              @ (if 2 \<le> length (last (splitRuns ?zs)) then [last (splitRuns ?zs)] else [])"
        by (subst bl) simp
      with True show ?thesis
        using cur lastlast idx zs
        by (auto simp: segFold_snoc IH segStep_def Let_def pathCoords_snoc splitRuns_snoc isJump_def)
    next
      case False
      then show ?thesis
        using cur lastlast idx zs
        by (auto simp: segFold_snoc IH segStep_def Let_def pathCoords_snoc splitRuns_snoc isJump_def)
    qed
  qed
qed

lemma simulationSegments_runs:
  "simulationSegments (Some path) = (if keptRuns path = [] then None else Some (keptRuns path))"
proof (cases path rule: rev_cases)
  case Nil
  then show ?thesis by (simp add: simulationSegments_def keptRuns_def pathCoords_def)
next
  case (snoc ys x)
  have unfold: "simulationSegments (Some path) =
     (let st = segFold (length path) path in if segments st \<noteq> [] then Some (segments st) else None)"
    using snoc by (simp add: simulationSegments_def segFold_def)
  show ?thesis
  proof (cases "ys = []")
    case True
    with snoc show ?thesis
      by (simp add: simulationSegments_def segStep_def Let_def keptRuns_def pathCoords_def)
  next
    case False
    let ?zs = "pathCoords ys"
    let ?n = "length path"
    have zs: "?zs \<noteq> []" using False by (simp add: pathCoords_Nil_iff)
    have pre: "segFold ?n ys = \<lparr>segments = filter (\<lambda>r. 2 \<le> length r) (butlast (splitRuns ?zs)),
                  current = last (splitRuns ?zs)\<rparr>"
      using segFold_prefix[OF False, of ?n] snoc by simp
    have sne: "splitRuns ?zs \<noteq> []" using zs by (rule splitRuns_nonempty)
    have cur: "last (splitRuns ?zs) \<noteq> []"
      using splitRuns_runs_nonempty[of "last (splitRuns ?zs)" ?zs] sne by simp
    have lastlast: "last (last (splitRuns ?zs)) = last ?zs" using zs by (rule last_last_splitRuns)
    have idx: "length ys = ?n - 1" using snoc by simp
    have bl: "splitRuns ?zs = butlast (splitRuns ?zs) @ [last (splitRuns ?zs)]"
      using sne by simp
    have fl: "filter (\<lambda>r. 2 \<le> length r) (splitRuns ?zs)
            = filter (\<lambda>r. 2 \<le> length r) (butlast (splitRuns ?zs))
              @ (if 2 \<le> length (last (splitRuns ?zs)) then [last (splitRuns ?zs)] else [])"
      by (subst bl) simp
    have step: "segFold ?n path = segStep ?n (segFold ?n ys) (x, ?n - 1)"
      using snoc idx by (simp add: segFold_snoc)
    have cur1: "Suc 0 \<le> length (last (splitRuns ?zs))"
      using cur by (cases "last (splitRuns ?zs)") auto
    have "segments (segFold ?n path) = keptRuns path"
      unfolding step pre using cur cur1 lastlast zs fl snoc
      by (auto simp: segStep_def Let_def pathCoords_snoc splitRuns_snoc isJump_def keptRuns_def)
    then show ?thesis by (simp add: unfold Let_def)
  qed
qed


lemma jumpCount_pos_iff:
  "0 < jumpCount zs \<longleftrightarrow> (\<exists>i. Suc i < length zs \<and> isJump (zs ! i) (zs ! Suc i))"
proof (induction zs rule: jumpCount.induct)
  case (1 c d rest)
  have "(\<exists>i. Suc i < length (c # d # rest) \<and> isJump ((c # d # rest) ! i) ((c # d # rest) ! Suc i))
        \<longleftrightarrow> isJump c d \<or> (\<exists>j. Suc j < length (d # rest) \<and> isJump ((d # rest) ! j) ((d # rest) ! Suc j))"
    (is "?L \<longleftrightarrow> ?R")
  proof
    assume ?L
    then obtain i where i: "Suc i < length (c # d # rest)"
      "isJump ((c # d # rest) ! i) ((c # d # rest) ! Suc i)" by blast
    show ?R
    proof (cases i)
      case 0
      with i show ?thesis by simp
    next
      case (Suc j)
      with i have "Suc j < length (d # rest) \<and> isJump ((d # rest) ! j) ((d # rest) ! Suc j)" by simp
      then show ?thesis by blast
    qed
  next
    assume ?R
    then show ?L
    proof
      assume "isJump c d"
      then have "Suc 0 < length (c # d # rest) \<and> isJump ((c # d # rest) ! 0) ((c # d # rest) ! Suc 0)"
        by simp
      then show ?L by blast
    next
      assume "\<exists>j. Suc j < length (d # rest) \<and> isJump ((d # rest) ! j) ((d # rest) ! Suc j)"
      then obtain j where "Suc j < length (d # rest)" "isJump ((d # rest) ! j) ((d # rest) ! Suc j)"
        by blast
      then have "Suc (Suc j) < length (c # d # rest)
                 \<and> isJump ((c # d # rest) ! Suc j) ((c # d # rest) ! Suc (Suc j))" by simp
      then show ?L by blast
    qed
  qed
  with 1 show ?case by auto
qed auto

lemma splitRuns_run_no_jump: "r \<in> set (splitRuns zs) \<Longrightarrow> jumpCount r = 0"
proof (induction zs arbitrary: r rule: splitRuns.induct)
  case (3 c d rest)
  obtain q qs where q: "splitRuns (d # rest) = q # qs" using splitRuns_Cons_ex by blast
  have qne: "q \<noteq> []" using splitRuns_runs_nonempty[of q "d # rest"] q by simp
  have hdq: "hd q = d" using splitRuns_concat[of "d # rest"] q qne by (cases q) auto
  show ?case
  proof (cases "isJump c d")
    case True
    with 3 q show ?thesis by auto
  next
    case False
    have "jumpCount q = 0" using 3(2)[of q] False q by simp
    then have "jumpCount (c # q) = 0" using False hdq qne by (cases q) auto
    with 3 q False show ?thesis by auto
  qed
qed auto

text \<open>
  Claim C10. The segmentation of a path is \<open>null\<close> or a non-empty list of segments
  that have at least 2 points each. It consists of the maximal jump-free runs of the
  path that have at least 2 points, in order: a run of a single point is dropped,
  and the result is \<open>null\<close> when no run has 2 points.
\<close>

theorem simulationSegments_null_or_proper:
  "simulationSegments None = None
   \<and> simulationSegments (Some path) = (if keptRuns path = [] then None else Some (keptRuns path))
   \<and> concat (splitRuns (pathCoords path)) = pathCoords path
   \<and> (\<forall>r \<in> set (keptRuns path). 2 \<le> length r \<and> jumpCount r = 0)
   \<and> (simulationSegments simPath = None
        \<or> (\<exists>segs. simulationSegments simPath = Some segs \<and> segs \<noteq> []
                   \<and> (\<forall>s \<in> set segs. 2 \<le> length s)))"
proof -
  have a: "simulationSegments None = None" by (simp add: simulationSegments_def)
  have b: "\<forall>r \<in> set (keptRuns path). 2 \<le> length r \<and> jumpCount r = 0"
    by (auto simp: keptRuns_def splitRuns_run_no_jump)
  have c: "simulationSegments simPath = None
        \<or> (\<exists>segs. simulationSegments simPath = Some segs \<and> segs \<noteq> []
                   \<and> (\<forall>s \<in> set segs. 2 \<le> length s))"
  proof (cases simPath)
    case None
    then show ?thesis using a by simp
  next
    case (Some p)
    show ?thesis unfolding Some simulationSegments_runs by (auto simp: keptRuns_def)
  qed
  from a b c show ?thesis using simulationSegments_runs splitRuns_concat by blast
qed

text \<open>
  Witness of C10: a path of three points that jumps after its first point: the
  single-point run is dropped, the other run is the only segment.
\<close>

theorem simulationSegments_null_or_proper_witness:
  "simulationSegments
     (Some [\<lparr>lat = 0, lng = 170, time = 1000, distance = None\<rparr>,
            \<lparr>lat = 0, lng = - 170, time = 16000, distance = None\<rparr>,
            \<lparr>lat = 0, lng = - 160, time = 31000, distance = None\<rparr>])
   = Some [[(0, - 170), (0, - 160)]]
   \<and> 2 \<le> length [(0 :: real, - 170 :: real), (0, - 160)]"
  using simulationSegments_null_or_proper
    [of "[\<lparr>lat = 0, lng = 170, time = 1000, distance = None\<rparr>,
          \<lparr>lat = 0, lng = - 170, time = 16000, distance = None\<rparr>,
          \<lparr>lat = 0, lng = - 160, time = 31000, distance = None\<rparr>]" None]
  by (simp add: keptRuns_def pathCoords_def isJump_def)

text \<open>
  Claim C2, as amended. For a path of at least 2 samples: when no two consecutive
  longitudes differ by more than 180, the segmentation is exactly one segment, the
  whole path; when some do, the path is cut at each such pair, into one more run
  than there are such pairs, and the segments are the runs of at least 2 points
  (none, one or several), so the result is not the whole path as one segment.
\<close>

theorem simulationSegments_count:
  assumes "2 \<le> length path"
  shows "(jumpCount (pathCoords path) = 0 \<longrightarrow>
            simulationSegments (Some path) = Some [pathCoords path])
         \<and> (0 < jumpCount (pathCoords path) \<longrightarrow>
              length (splitRuns (pathCoords path)) = Suc (jumpCount (pathCoords path))
              \<and> simulationSegments (Some path)
                  = (if keptRuns path = [] then None else Some (keptRuns path))
              \<and> simulationSegments (Some path) \<noteq> Some [pathCoords path])"
proof -
  let ?zs = "pathCoords path"
  have ne: "?zs \<noteq> []" using assms by (auto simp: pathCoords_def)
  have len: "2 \<le> length ?zs" using assms by (simp add: pathCoords_def)
  have one: "simulationSegments (Some path) = Some [?zs]" if "jumpCount ?zs = 0"
    using splitRuns_no_jump[OF ne that] len
    by (simp add: simulationSegments_runs keptRuns_def)
  have many: "simulationSegments (Some path) \<noteq> Some [?zs]" if j: "0 < jumpCount ?zs"
  proof
    assume "simulationSegments (Some path) = Some [?zs]"
    then have "keptRuns path = [?zs]"
      by (simp add: simulationSegments_runs split: if_splits)
    then have "?zs \<in> set (filter (\<lambda>r. 2 \<le> length r) (splitRuns ?zs))"
      by (simp add: keptRuns_def)
    then have "?zs \<in> set (splitRuns ?zs)" by simp
    then have "jumpCount ?zs = 0" by (rule splitRuns_run_no_jump)
    with j show False by simp
  qed
  show ?thesis using one many splitRuns_length[OF ne] simulationSegments_runs by simp
qed

text \<open>
  Witness of C2 as amended: a path of four points that jumps in the middle: two
  segments.
\<close>

theorem simulationSegments_count_witness:
  "2 \<le> length [\<lparr>lat = 0, lng = 160, time = 1000, distance = None\<rparr>,
                \<lparr>lat = 0, lng = 170, time = 16000, distance = None\<rparr>,
                \<lparr>lat = 0, lng = - 170, time = 31000, distance = None\<rparr>,
                \<lparr>lat = 0, lng = - 160, time = 46000, distance = None\<rparr>]
   \<and> simulationSegments
       (Some [\<lparr>lat = 0, lng = 160, time = 1000, distance = None\<rparr>,
              \<lparr>lat = 0, lng = 170, time = 16000, distance = None\<rparr>,
              \<lparr>lat = 0, lng = - 170, time = 31000, distance = None\<rparr>,
              \<lparr>lat = 0, lng = - 160, time = 46000, distance = None\<rparr>])
     = Some [[(0, 160), (0, 170)], [(0, - 170), (0, - 160)]]"
  using simulationSegments_count
    [of "[\<lparr>lat = 0, lng = 160, time = 1000, distance = None\<rparr>,
          \<lparr>lat = 0, lng = 170, time = 16000, distance = None\<rparr>,
          \<lparr>lat = 0, lng = - 170, time = 31000, distance = None\<rparr>,
          \<lparr>lat = 0, lng = - 160, time = 46000, distance = None\<rparr>]"]
  by (simp add: keptRuns_def pathCoords_def isJump_def)

text \<open>
  Counterexample to C2 as stated: a path of two samples on either side of the
  antimeridian: the longitudes differ by 340, both runs have a single point, and the
  segmentation is \<open>null\<close>, not more than one segment.
\<close>

theorem simulationSegments_jump_no_segment:
  "0 < jumpCount (pathCoords [\<lparr>lat = 0, lng = 170, time = 1000, distance = None\<rparr>,
                               \<lparr>lat = 0, lng = - 170, time = 16000, distance = None\<rparr>])
   \<and> simulationSegments
       (Some [\<lparr>lat = 0, lng = 170, time = 1000, distance = None\<rparr>,
              \<lparr>lat = 0, lng = - 170, time = 16000, distance = None\<rparr>]) = None"
  by (simp add: simulationSegments_def segStep_def Let_def pathCoords_def isJump_def)

subsection \<open>Playback\<close>






subsection \<open>Distances along the equator\<close>

lemma atan2_sin_cos:
  assumes "0 \<le> \<phi>" "\<phi> \<le> pi / 2"
  shows "atan2 (sin \<phi>) (cos \<phi>) = \<phi>"
proof (cases "\<phi> < pi / 2")
  case True
  then have c: "0 < cos \<phi>" using assms by (intro cos_gt_zero_pi) linarith+
  have "arctan (sin \<phi> / cos \<phi>) = \<phi>"
    using arctan_tan[of \<phi>] True assms by (simp add: tan_def)
  with c show ?thesis by (simp add: atan2_def)
next
  case False
  with assms have e: "\<phi> = pi / 2" by simp
  show ?thesis unfolding e by (simp add: atan2_def)
qed

lemma haversine_equator:
  assumes "lat a = 0" "lat b = 0" "\<bar>lng b - lng a\<bar> \<le> 180"
  shows "haversineDistanceKm (Some a) (Some b) = Some (6371 * (\<bar>lng b - lng a\<bar> * pi / 180))"
proof -
  let ?th = "toRad (lng b - lng a) / 2"
  let ?ph = "\<bar>?th\<bar>"
  have ph: "?ph = \<bar>lng b - lng a\<bar> * pi / 360"
    by (simp add: toRad_def abs_mult)
  have ph0: "0 \<le> ?ph" by simp
  have ph1: "?ph \<le> pi / 2" unfolding ph using assms(3) by (simp add: field_simps)
  have ss: "sin ?th * sin ?th = sin ?ph * sin ?ph"
    by (cases "0 \<le> ?th") (simp_all add: abs_if)
  have s0: "0 \<le> sin ?ph" using ph0 ph1 by (intro sin_ge_zero) linarith+
  have c0: "0 \<le> cos ?ph" using ph0 ph1 by (intro cos_ge_zero) linarith+
  have sq1: "sqrt (sin ?ph * sin ?ph) = sin ?ph" using s0 by simp
  have "1 - sin ?ph * sin ?ph = cos ?ph * cos ?ph"
    using sin_cos_squared_add[of ?ph] by (simp add: power2_eq_square algebra_simps)
  then have sq2: "sqrt (1 - sin ?ph * sin ?ph) = cos ?ph" using c0 by simp
  have "haversineDistanceKm (Some a) (Some b)
          = Some (6371 * (2 * atan2 (sqrt (sin ?ph * sin ?ph)) (sqrt (1 - sin ?ph * sin ?ph))))"
    using assms(1,2) ss by (simp add: haversineDistanceKm_def Let_def toRad_def)
  also have "\<dots> = Some (6371 * (2 * ?ph))"
    unfolding sq1 sq2 using atan2_sin_cos[OF ph0 ph1] by simp
  also have "\<dots> = Some (6371 * (\<bar>lng b - lng a\<bar> * pi / 180))"
    unfolding ph by simp
  finally show ?thesis .
qed


subsection \<open>The simulation path builder\<close>

lemma simStepMs_pos: "0 < simStepMs"
  by (simp add: simStepMs_def SIM_STEP_SECONDS_def)

lemma simLoop_ext:
  "\<exists>ext. simLoop model tp thr e t path = path @ ext
         \<and> sorted_wrt (<) (map time ext) \<and> (\<forall>s \<in> set ext. t \<le> time s)"
proof (induction model tp thr e t path rule: simLoop.induct)
  case (1 model tp thr e t path)
  show ?case
  proof (cases "t \<le> e + simStepMs")
    case False
    then have "simLoop model tp thr e t path = path @ []" by (subst simLoop.simps) simp
    then show ?thesis by (intro exI[of _ "[]"]) simp
  next
    case True
    show ?thesis
    proof (cases "computeGroundPoint model t")
      case None
      from 1(1)[OF True None] obtain ext where
        ext: "simLoop model tp thr e (t + simStepMs) path = path @ ext"
          "sorted_wrt (<) (map time ext)" "\<forall>s \<in> set ext. t + simStepMs \<le> time s" by blast
      have "simLoop model tp thr e t path = simLoop model tp thr e (t + simStepMs) path"
        using True None by (subst simLoop.simps) simp
      with ext simStepMs_pos show ?thesis by (intro exI[of _ ext]) force
    next
      case (Some gp)
      define ground where "ground = \<lparr>lat = lat gp, lng = normalizeLngFin (lng gp)\<rparr>"
      define dst where "dst = haversineDistanceKm (Some ground) (Some tp)"
      define s where "s = \<lparr>lat = lat ground, lng = lng ground, time = t, distance = dst\<rparr>"
      have ts: "time s = t" by (simp add: s_def)
      show ?thesis
      proof (cases "distWithin dst thr")
        case True
        have "simLoop model tp thr e t path = path @ [s]"
          using \<open>t \<le> e + simStepMs\<close> Some True
          by (subst simLoop.simps) (simp add: Let_def ground_def dst_def s_def)
        then show ?thesis using ts by (intro exI[of _ "[s]"]) simp
      next
        case False
        from 1(2)[OF True Some ground_def dst_def refl False] obtain ext where
          ext: "simLoop model tp thr e (t + simStepMs) (path @ [s]) = (path @ [s]) @ ext"
            "sorted_wrt (<) (map time ext)" "\<forall>s \<in> set ext. t + simStepMs \<le> time s"
          unfolding s_def by blast
        have "simLoop model tp thr e t path = simLoop model tp thr e (t + simStepMs) (path @ [s])"
          using True Some False
          by (subst simLoop.simps) (simp add: Let_def ground_def dst_def s_def)
        with ext have eq: "simLoop model tp thr e t path = path @ (s # ext)" by simp
        have "sorted_wrt (<) (map time (s # ext))" "\<forall>x \<in> set (s # ext). t \<le> time x"
          using ext(2,3) ts simStepMs_pos by force+
        with eq show ?thesis by blast
      qed
    qed
  qed
qed

lemma usableSamples_shape:
  "sorted_wrt (<) (map time (usableSamples model tp thr e now))
   \<and> (\<forall>s \<in> set (usableSamples model tp thr e now). now \<le> time s)
   \<and> (computeGroundPoint model now \<noteq> None \<longrightarrow>
        usableSamples model tp thr e now \<noteq> [] \<and> time (hd (usableSamples model tp thr e now)) = now)"
proof -
  let ?p0 = "case computeGroundPoint model now of
          None \<Rightarrow> []
        | Some startPoint \<Rightarrow>
            [\<lparr>lat = lat startPoint, lng = lng startPoint, time = now, distance = None\<rparr>]"
  obtain ext where ext: "usableSamples model tp thr e now = ?p0 @ ext"
      "sorted_wrt (<) (map time ext)" "\<forall>s \<in> set ext. now + simStepMs \<le> time s"
    unfolding usableSamples_def using simLoop_ext[of model tp thr e "now + simStepMs" ?p0] by blast
  show ?thesis
    unfolding ext(1) using ext(2,3) simStepMs_pos
    by (cases "computeGroundPoint model now") (force simp: sorted_wrt_append)+
qed

lemma simulationPath_unfold:
  assumes "p_time p \<noteq> 0" "now < p_time p"
  shows "simulationPath (Some track) (Some tp) (Some p) thr now =
     (let path = usableSamples (Some track) tp thr (p_time p) now in
      if length path < 2 then None
      else if time (last path) < p_time p then
        (case computeGroundPoint (Some track) (p_time p) of
           None \<Rightarrow> Some path
         | Some finalPoint \<Rightarrow>
             Some (path @ [\<lparr>lat = lat finalPoint, lng = normalizeLngFin (lng finalPoint),
                             time = p_time p, distance = None\<rparr>]))
      else Some path)"
  using assms by (simp add: simulationPath_def usableSamples_def Let_def)

lemma simulationPath_Some_cases:
  assumes "simulationPath model targetPoint pred thr now = Some path"
  obtains track tp p where "model = Some track" "targetPoint = Some tp" "pred = Some p"
    "p_time p \<noteq> 0" "now < p_time p"
  using assms
  by (cases model; cases targetPoint; cases pred)
     (auto simp: simulationPath_def Let_def split: if_splits)

text \<open>
  Claim C4, as amended. Whenever the path builder returns a path, the path has at
  least 2 samples, its timestamps are strictly increasing and none is before the
  current time, and the prediction has a time after the current time; its first
  sample is at the current time provided the model yields a ground point at the
  current time, and its last sample is at or after the predicted pass time provided
  the model yields a ground point at the pass time. The path is \<open>null\<close> when there is
  no prediction or its time is not after the current time, and, for a prediction
  after the current time, exactly when fewer than 2 usable samples were collected.
\<close>

theorem simulationPath_shape:
  "(simulationPath model targetPoint pred thr now = Some path \<longrightarrow>
      2 \<le> length path
      \<and> sorted_wrt (<) (map time path)
      \<and> (\<forall>s \<in> set path. now \<le> time s)
      \<and> (computeGroundPoint model now \<noteq> None \<longrightarrow> time (hd path) = now)
      \<and> (\<exists>p. pred = Some p \<and> now < p_time p
             \<and> (computeGroundPoint model (p_time p) \<noteq> None \<longrightarrow> p_time p \<le> time (last path))))
   \<and> ((pred = None \<or> (\<exists>p. pred = Some p \<and> p_time p \<le> now)) \<longrightarrow>
        simulationPath model targetPoint pred thr now = None)
   \<and> (model = Some track \<and> targetPoint = Some tp \<and> pred = Some q \<and> p_time q \<noteq> 0
        \<and> now < p_time q \<longrightarrow>
        (simulationPath model targetPoint pred thr now = None
           \<longleftrightarrow> length (usableSamples model tp thr (p_time q) now) < 2))"
proof (intro conjI impI)
  assume "pred = None \<or> (\<exists>p. pred = Some p \<and> p_time p \<le> now)"
  then show "simulationPath model targetPoint pred thr now = None"
    by (cases model; cases targetPoint) (auto simp: simulationPath_def Let_def)
next
  assume "model = Some track \<and> targetPoint = Some tp \<and> pred = Some q \<and> p_time q \<noteq> 0
          \<and> now < p_time q"
  then show "simulationPath model targetPoint pred thr now = None
           \<longleftrightarrow> length (usableSamples model tp thr (p_time q) now) < 2"
    by (auto simp: simulationPath_unfold Let_def split: option.splits)
next
  assume some: "simulationPath model targetPoint pred thr now = Some path"
  then obtain track tp p where inp: "model = Some track" "targetPoint = Some tp" "pred = Some p"
    "p_time p \<noteq> 0" "now < p_time p" by (rule simulationPath_Some_cases)
  let ?us = "usableSamples model tp thr (p_time p) now"
  have sh: "sorted_wrt (<) (map time ?us)" "\<forall>s \<in> set ?us. now \<le> time s"
    "computeGroundPoint model now \<noteq> None \<longrightarrow> ?us \<noteq> [] \<and> time (hd ?us) = now"
    using usableSamples_shape[of model tp thr "p_time p" now] by blast+
  have len: "2 \<le> length ?us"
    using some inp by (auto simp: simulationPath_unfold Let_def split: if_splits)
  then have ne: "?us \<noteq> []" by auto
  consider (same) "path = ?us" "p_time p \<le> time (last ?us) \<or> computeGroundPoint model (p_time p) = None"
    | (more) fp where "computeGroundPoint model (p_time p) = Some fp" "time (last ?us) < p_time p"
        "path = ?us @ [\<lparr>lat = lat fp, lng = normalizeLngFin (lng fp),
                             time = p_time p, distance = None\<rparr>]"
    using some inp len
    by (auto simp: simulationPath_unfold Let_def split: if_splits option.splits)
  then have main: "2 \<le> length path \<and> sorted_wrt (<) (map time path)
      \<and> (\<forall>s \<in> set path. now \<le> time s)
      \<and> (computeGroundPoint model now \<noteq> None \<longrightarrow> time (hd path) = now)
      \<and> (computeGroundPoint model (p_time p) \<noteq> None \<longrightarrow> p_time p \<le> time (last path))"
  proof cases
    case same
    then show ?thesis using sh len by auto
  next
    case more
    have below: "\<forall>s \<in> set ?us. time s < p_time p"
    proof
      fix s assume s: "s \<in> set ?us"
      show "time s < p_time p"
      proof (cases "s = last ?us")
        case True
        then show ?thesis using more(2) by simp
      next
        case False
        have "?us = butlast ?us @ [last ?us]" using ne by simp
        then have "sorted_wrt (<) (map time (butlast ?us @ [last ?us]))" using sh(1) by simp
        moreover have "s \<in> set (butlast ?us)"
          using s False ne by (metis append_butlast_last_id rotate1.simps(2) set_ConsD set_rotate1)
        ultimately have "time s < time (last ?us)" by (auto simp: sorted_wrt_append)
        then show ?thesis using more(2) by simp
      qed
    qed
    show ?thesis
      unfolding more(3) using sh len ne below inp(5)
      by (auto simp: sorted_wrt_append)
  qed
  show "2 \<le> length path" using main by simp
  show "sorted_wrt (<) (map time path)" using main by simp
  show "\<forall>s \<in> set path. now \<le> time s" using main by simp
  show "time (hd path) = now" if "computeGroundPoint model now \<noteq> None" using main that by simp
  show "\<exists>p. pred = Some p \<and> now < p_time p
             \<and> (computeGroundPoint model (p_time p) \<noteq> None \<longrightarrow> p_time p \<le> time (last path))"
    using main inp by simp
qed


lemma pi_ge_three: "3 \<le> pi"
  using sin_x_le_x[of "pi / 6"] by (simp add: sin_30)

lemma antipodal_distance:
  "haversineDistanceKm (Some \<lparr>lat = 0, lng = 180\<rparr>) (Some equatorTarget) = Some (6371 * pi)"
  using haversine_equator[of "\<lparr>lat = 0, lng = 180\<rparr>" equatorTarget]
  by (simp add: equatorTarget_def)

lemma antipodal_not_within: "k < 19113 \<Longrightarrow> \<not> distWithin (Some (6371 * pi)) k"
  using pi_ge_three by (simp add: distWithin_def)

text \<open>
  Witness of C4 as amended, on a model that always yields a position, from time 1000 to a
  pass at 21000: three samples, the first at 1000, the last at 31000.
\<close>

theorem simulationPath_shape_witness:
  "simulationPath (Some antipodalTrack) (Some equatorTarget)
       (Some \<lparr>p_time = 21000, p_distance = Fin (6371 * pi), thresholdHit = False\<rparr>) 5 1000
     = Some [\<lparr>lat = 0, lng = 180, time = 1000, distance = None\<rparr>,
             \<lparr>lat = 0, lng = 180, time = 16000, distance = Some (6371 * pi)\<rparr>,
             \<lparr>lat = 0, lng = 180, time = 31000, distance = Some (6371 * pi)\<rparr>]
   \<and> time (hd [\<lparr>lat = 0, lng = 180, time = 1000, distance = None\<rparr>,
                \<lparr>lat = 0, lng = 180, time = 16000, distance = Some (6371 * pi)\<rparr>,
                \<lparr>lat = 0, lng = 180, time = 31000, distance = Some (6371 * pi)\<rparr>]) = 1000
   \<and> 21000 \<le> time (last [\<lparr>lat = 0, lng = 180, time = 1000, distance = None\<rparr>,
                \<lparr>lat = 0, lng = 180, time = 16000, distance = Some (6371 * pi)\<rparr>,
                \<lparr>lat = 0, lng = 180, time = 31000, distance = Some (6371 * pi)\<rparr>])"
proof -
  have ev: "simulationPath (Some antipodalTrack) (Some equatorTarget)
       (Some \<lparr>p_time = 21000, p_distance = Fin (6371 * pi), thresholdHit = False\<rparr>) 5 1000
     = Some [\<lparr>lat = 0, lng = 180, time = 1000, distance = None\<rparr>,
             \<lparr>lat = 0, lng = 180, time = 16000, distance = Some (6371 * pi)\<rparr>,
             \<lparr>lat = 0, lng = 180, time = 31000, distance = Some (6371 * pi)\<rparr>]"
    by (simp add: simulationPath_def Let_def computeGroundPoint_def antipodalTrack_def
          simLoop.simps simStepMs_def SIM_STEP_SECONDS_def antipodal_distance
          antipodal_not_within normalizeLngFin_small)
  show ?thesis
    using simulationPath_shape
      [of "Some antipodalTrack" "Some equatorTarget"
          "Some \<lparr>p_time = 21000, p_distance = Fin (6371 * pi), thresholdHit = False\<rparr>" 5 1000
          "[\<lparr>lat = 0, lng = 180, time = 1000, distance = None\<rparr>,
             \<lparr>lat = 0, lng = 180, time = 16000, distance = Some (6371 * pi)\<rparr>,
             \<lparr>lat = 0, lng = 180, time = 31000, distance = Some (6371 * pi)\<rparr>]"]
      ev
    by (simp add: computeGroundPoint_def antipodalTrack_def)
qed

text \<open>
  Counterexample to C4 as stated: a model that yields no position at some times,
  which the builder skips. With no position at the current time 1000, the path to a pass
  at 31000 starts at 16000. With positions at 1000 and 16000 only, the path to a
  pass at 40000 ends at 16000.
\<close>

theorem simulationPath_late_start_early_end:
  "map_option (map time)
     (simulationPath (Some (patchyTrack [16000, 31000])) (Some equatorTarget)
        (Some \<lparr>p_time = 31000, p_distance = Fin (6371 * pi), thresholdHit = False\<rparr>) 5 1000)
     = Some [16000, 31000]
   \<and> map_option (map time)
       (simulationPath (Some (patchyTrack [1000, 16000])) (Some equatorTarget)
          (Some \<lparr>p_time = 40000, p_distance = Fin (6371 * pi), thresholdHit = False\<rparr>) 5 1000)
     = Some [1000, 16000]"
  by (simp add: simulationPath_def Let_def computeGroundPoint_def patchyTrack_def
        simLoop.simps simStepMs_def SIM_STEP_SECONDS_def antipodal_distance
        antipodal_not_within normalizeLngFin_small)

subsection \<open>The pass predictor\<close>

declare loopTimes.simps [simp del]
declare coarseScan.simps [simp del]
declare refineScan.simps [simp del]

lemma loopTimes_Cons: "0 < s \<Longrightarrow> t \<le> e \<Longrightarrow> loopTimes t e s = t # loopTimes (t + s) e s"
  by (subst loopTimes.simps) simp

lemma loopTimes_Nil: "\<not> t \<le> e \<Longrightarrow> loopTimes t e s = []"
  by (subst loopTimes.simps) simp

lemma loopTimes_lower: "u \<in> set (loopTimes t e s) \<Longrightarrow> t \<le> u"
proof (induction t e s rule: loopTimes.induct)
  case (1 t e s)
  show ?case
  proof (cases "0 < s \<and> t \<le> e")
    case True
    then have lt: "loopTimes t e s = t # loopTimes (t + s) e s" by (intro loopTimes_Cons) simp_all
    have "u = t \<or> u \<in> set (loopTimes (t + s) e s)"
      using 1(2) unfolding lt by simp
    then show ?thesis using 1(1)[OF True] True by auto
  next
    case False
    then have "loopTimes t e s = []" by (subst loopTimes.simps) simp
    with 1(2) show ?thesis by simp
  qed
qed

lemma loopTimes_sorted: "sorted_wrt (<) (loopTimes t e s)"
proof (induction t e s rule: loopTimes.induct)
  case (1 t e s)
  show ?case
  proof (cases "0 < s \<and> t \<le> e")
    case True
    have lt: "loopTimes t e s = t # loopTimes (t + s) e s"
      using True by (intro loopTimes_Cons) simp_all
    have "\<forall>u \<in> set (loopTimes (t + s) e s). t < u"
      using loopTimes_lower[of _ "t + s" e s] True by force
    then show ?thesis using 1[OF True] unfolding lt by simp
  next
    case False
    then have "loopTimes t e s = []" by (subst loopTimes.simps) simp
    then show ?thesis by simp
  qed
qed

lemma loopTimes_mem:
  "0 < s \<Longrightarrow> u \<in> set (loopTimes t e s) \<longleftrightarrow> (\<exists>k :: nat. u = t + s * int k) \<and> u \<le> e"
proof (induction t e s rule: loopTimes.induct)
  case (1 t e s)
  show ?case
  proof (cases "t \<le> e")
    case False
    have "\<not> ((\<exists>k :: nat. u = t + s * int k) \<and> u \<le> e)"
    proof
      assume "(\<exists>k :: nat. u = t + s * int k) \<and> u \<le> e"
      then obtain k :: nat where "u = t + s * int k" "u \<le> e" by blast
      moreover have "0 \<le> s * int k" using 1(2) by simp
      ultimately show False using False by linarith
    qed
    then show ?thesis using False by (simp add: loopTimes_Nil)
  next
    case True
    have IH: "u \<in> set (loopTimes (t + s) e s) \<longleftrightarrow> (\<exists>k :: nat. u = t + s + s * int k) \<and> u \<le> e"
      using 1 True by simp
    have "(\<exists>k :: nat. u = t + s * int k) \<longleftrightarrow> u = t \<or> (\<exists>k :: nat. u = t + s + s * int k)"
    proof
      assume "\<exists>k :: nat. u = t + s * int k"
      then obtain k :: nat where k: "u = t + s * int k" by blast
      show "u = t \<or> (\<exists>k :: nat. u = t + s + s * int k)"
      proof (cases k)
        case 0
        with k show ?thesis by simp
      next
        case (Suc j)
        with k have "u = t + s + s * int j" by (simp add: algebra_simps)
        then show ?thesis by blast
      qed
    next
      assume "u = t \<or> (\<exists>k :: nat. u = t + s + s * int k)"
      then show "\<exists>k :: nat. u = t + s * int k"
      proof
        assume "u = t"
        then have "u = t + s * int 0" by simp
        then show ?thesis by blast
      next
        assume "\<exists>k :: nat. u = t + s + s * int k"
        then obtain k :: nat where "u = t + s + s * int k" by blast
        then have "u = t + s * int (Suc k)" by (simp add: algebra_simps)
        then show ?thesis by blast
      qed
    qed
    moreover have lt: "loopTimes t e s = t # loopTimes (t + s) e s"
      using True 1(2) by (intro loopTimes_Cons) simp_all
    ultimately show ?thesis using IH True unfolding lt by auto
  qed
qed

lemma sorted_split:
  assumes "sorted_wrt (<) (ts :: int list)" "u \<in> set ts"
  shows "\<exists>xs ys. ts = xs @ u # ys \<and> (\<forall>v \<in> set ts. v < u \<longleftrightarrow> v \<in> set xs)"
proof -
  from assms(2) obtain xs ys where ts: "ts = xs @ u # ys" by (auto dest: split_list)
  have "\<forall>v \<in> set xs. v < u" "\<forall>v \<in> set ys. u < v"
    using assms(1) unfolding ts by (auto simp: sorted_wrt_append)
  then have "\<forall>v \<in> set ts. v < u \<longleftrightarrow> v \<in> set xs" unfolding ts by auto
  with ts show ?thesis by blast
qed

lemma evaluatePoint_eq:
  "evaluatePoint model tp b t
     = (groundDistance model tp t, closer (groundDistance model tp t) t b)"
  by (simp add: evaluatePoint_def groundDistance_def closer_def Let_def split: option.splits)

lemma scanBest_simps:
  "scanBest model tp [] b = b"
  "scanBest model tp (u # ts) b = scanBest model tp ts (closer (groundDistance model tp u) u b)"
  "scanBest model tp (ts @ [u]) b = closer (groundDistance model tp u) u (scanBest model tp ts b)"
  by (simp_all add: scanBest_def)

lemma coarseStepMs_pos: "0 < coarseStepMs"
  by (simp add: coarseStepMs_def PASS_COARSE_STEP_SECONDS_def)

lemma refineStepMs_pos: "0 < refineStepMs"
  by (simp add: refineStepMs_def PASS_REFINE_STEP_SECONDS_def)

lemma coarseScan_no_hit:
  "\<forall>u \<in> set (loopTimes t e coarseStepMs).
      \<not> distWithin (groundDistance model tp u) PASS_THRESHOLD_COARSE_KM \<Longrightarrow>
   coarseScan model tp now e t b = (None, scanBest model tp (loopTimes t e coarseStepMs) b)"
proof (induction model tp now e t b rule: coarseScan.induct)
  case (1 model tp now e t b)
  show ?case
  proof (cases "t \<le> e")
    case False
    then show ?thesis
      by (subst coarseScan.simps) (simp add: loopTimes_Nil scanBest_simps)
  next
    case True
    have lt: "loopTimes t e coarseStepMs = t # loopTimes (t + coarseStepMs) e coarseStepMs"
      using True coarseStepMs_pos by (intro loopTimes_Cons) simp_all
    have nh: "\<not> distWithin (groundDistance model tp t) PASS_THRESHOLD_COARSE_KM"
      using 1(2) lt by simp
    have rest: "\<forall>u \<in> set (loopTimes (t + coarseStepMs) e coarseStepMs).
      \<not> distWithin (groundDistance model tp u) PASS_THRESHOLD_COARSE_KM"
      using 1(2) lt by simp
    have IH: "coarseScan model tp now e (t + coarseStepMs) (closer (groundDistance model tp t) t b)
            = (None, scanBest model tp (loopTimes (t + coarseStepMs) e coarseStepMs)
                       (closer (groundDistance model tp t) t b))"
      using 1(1)[OF True refl] nh rest by (simp add: evaluatePoint_eq)
    show ?thesis
      using True nh IH
      by (subst coarseScan.simps) (simp add: evaluatePoint_eq Let_def lt scanBest_simps)
  qed
qed

lemma loopTimes_eq_Cons:
  assumes "loopTimes t e s = x # rest"
  shows "x = t \<and> 0 < s \<and> t \<le> e \<and> rest = loopTimes (t + s) e s"
proof -
  have c: "0 < s \<and> t \<le> e"
  proof (rule ccontr)
    assume "\<not> (0 < s \<and> t \<le> e)"
    then have "loopTimes t e s = []" by (subst loopTimes.simps) simp
    with assms show False by simp
  qed
  then have eq: "loopTimes t e s = t # loopTimes (t + s) e s" by (intro loopTimes_Cons) simp_all
  have "t # loopTimes (t + s) e s = x # rest" using assms unfolding eq .
  then have "x = t" "rest = loopTimes (t + s) e s" by blast+
  with c show ?thesis by blast
qed

lemma coarseScan_hit:
  "loopTimes t e coarseStepMs = xs @ u # ys \<Longrightarrow>
   \<forall>v \<in> set xs. \<not> distWithin (groundDistance model tp v) PASS_THRESHOLD_COARSE_KM \<Longrightarrow>
   distWithin (groundDistance model tp u) PASS_THRESHOLD_COARSE_KM \<Longrightarrow>
   coarseScan model tp now e t b
     = (Some \<lparr>w_start = max now (u - refineWindowMs), w_end = min e (u + refineWindowMs)\<rparr>,
        scanBest model tp (xs @ [u]) b)"
proof (induction xs arbitrary: t b)
  case Nil
  then have c: "u = t \<and> 0 < coarseStepMs \<and> t \<le> e" using loopTimes_eq_Cons[of t e coarseStepMs u ys] by simp
  then show ?case
    using Nil(3) by (subst coarseScan.simps) (simp add: evaluatePoint_eq Let_def scanBest_simps)
next
  case (Cons x xs)
  from Cons(2) have c: "x = t" "t \<le> e" "xs @ u # ys = loopTimes (t + coarseStepMs) e coarseStepMs"
    using loopTimes_eq_Cons[of t e coarseStepMs x "xs @ u # ys"] by simp_all
  have nh: "\<not> distWithin (groundDistance model tp t) PASS_THRESHOLD_COARSE_KM"
    using Cons(3) c(1) by simp
  have IH: "coarseScan model tp now e (t + coarseStepMs) (closer (groundDistance model tp t) t b)
     = (Some \<lparr>w_start = max now (u - refineWindowMs), w_end = min e (u + refineWindowMs)\<rparr>,
        scanBest model tp (xs @ [u]) (closer (groundDistance model tp t) t b))"
    using Cons(1)[OF c(3)[symmetric]] Cons(3,4) by simp
  show ?case
    using c(1,2) nh IH
    by (subst coarseScan.simps) (simp add: evaluatePoint_eq Let_def scanBest_simps)
qed

lemma refineScan_hit:
  "loopTimes t wend refineStepMs = xs @ u # ys \<Longrightarrow>
   \<forall>v \<in> set xs. \<not> distWithin (groundDistance model tp v) thr \<Longrightarrow>
   groundDistance model tp u = Some d \<Longrightarrow> d \<le> thr \<Longrightarrow>
   refineScan model tp thr wend t br b
     = Inl \<lparr>p_time = u, p_distance = Fin d, thresholdHit = True\<rparr>"
proof (induction xs arbitrary: t br b)
  case Nil
  then have c: "u = t \<and> 0 < refineStepMs \<and> t \<le> wend"
    using loopTimes_eq_Cons[of t wend refineStepMs u ys] by simp
  then show ?case
    using Nil(3,4) by (subst refineScan.simps) (simp add: evaluatePoint_eq Let_def)
next
  case (Cons x xs)
  from Cons(2) have c: "x = t" "t \<le> wend" "xs @ u # ys = loopTimes (t + refineStepMs) wend refineStepMs"
    using loopTimes_eq_Cons[of t wend refineStepMs x "xs @ u # ys"] by simp_all
  have nh: "\<not> distWithin (groundDistance model tp t) thr"
    using Cons(3) c(1) by simp
  have IH: "\<And>br b. refineScan model tp thr wend (t + refineStepMs) br b
     = Inl \<lparr>p_time = u, p_distance = Fin d, thresholdHit = True\<rparr>"
    using Cons(1)[OF c(3)[symmetric]] Cons(3,4,5) by simp
  show ?case
    using c(1,2) nh IH
    by (subst refineScan.simps)
       (auto simp: evaluatePoint_eq Let_def distWithin_def split: option.splits)
qed


lemma scanBest_init:
  assumes "sorted_wrt (<) ts"
  shows "(scanBest model tp ts closest_init = closest_init
            \<and> (\<forall>u \<in> set ts. groundDistance model tp u = None))
         \<or> (\<exists>u d. scanBest model tp ts closest_init = \<lparr>c_distance = Fin d, c_time = Some u\<rparr>
                  \<and> closestSample model tp ts u d)"
  using assms
proof (induction ts rule: rev_induct)
  case Nil
  then show ?case by (simp add: scanBest_simps)
next
  case (snoc x ts)
  have sorted: "sorted_wrt (<) ts" and below: "\<forall>v \<in> set ts. v < x"
    using snoc.prems by (auto simp: sorted_wrt_append)
  note IH = snoc.IH[OF sorted]
  show ?case
  proof (cases "groundDistance model tp x")
    case None
    then have same: "scanBest model tp (ts @ [x]) closest_init = scanBest model tp ts closest_init"
      by (simp add: scanBest_simps closer_def)
    from IH show ?thesis
    proof
      assume "scanBest model tp ts closest_init = closest_init
            \<and> (\<forall>u \<in> set ts. groundDistance model tp u = None)"
      then show ?thesis using None same by simp
    next
      assume "\<exists>u d. scanBest model tp ts closest_init = \<lparr>c_distance = Fin d, c_time = Some u\<rparr>
                  \<and> closestSample model tp ts u d"
      then obtain u d where ud: "scanBest model tp ts closest_init = \<lparr>c_distance = Fin d, c_time = Some u\<rparr>"
        "closestSample model tp ts u d" by blast
      have "closestSample model tp (ts @ [x]) u d"
        using ud(2) None by (simp add: closestSample_def)
      with ud(1) same show ?thesis by auto
    qed
  next
    case (Some dx)
    from IH show ?thesis
    proof
      assume a: "scanBest model tp ts closest_init = closest_init
            \<and> (\<forall>u \<in> set ts. groundDistance model tp u = None)"
      then have "scanBest model tp (ts @ [x]) closest_init = \<lparr>c_distance = Fin dx, c_time = Some x\<rparr>"
        using Some by (simp add: scanBest_simps closer_def closest_init_def)
      moreover have "closestSample model tp (ts @ [x]) x dx"
        using a Some by (simp add: closestSample_def)
      ultimately show ?thesis by blast
    next
      assume "\<exists>u d. scanBest model tp ts closest_init = \<lparr>c_distance = Fin d, c_time = Some u\<rparr>
                  \<and> closestSample model tp ts u d"
      then obtain u d where ud: "scanBest model tp ts closest_init = \<lparr>c_distance = Fin d, c_time = Some u\<rparr>"
        "closestSample model tp ts u d" by blast
      have uts: "u \<in> set ts" and gu: "groundDistance model tp u = Some d"
        and all: "\<forall>v \<in> set ts. case groundDistance model tp v of
                         None \<Rightarrow> True
                       | Some d' \<Rightarrow> d \<le> d' \<and> (v < u \<longrightarrow> d < d')"
        using ud(2) by (simp_all add: closestSample_def)
      have ux: "u < x" using below uts by simp
      show ?thesis
      proof (cases "dx < d")
        case True
        have "scanBest model tp (ts @ [x]) closest_init = \<lparr>c_distance = Fin dx, c_time = Some x\<rparr>"
          using Some True ud(1) by (simp add: scanBest_simps closer_def)
        moreover have "closestSample model tp (ts @ [x]) x dx"
          unfolding closestSample_def
        proof (intro conjI ballI)
          fix v assume v: "v \<in> set (ts @ [x])"
          show "case groundDistance model tp v of None \<Rightarrow> True
                | Some d' \<Rightarrow> dx \<le> d' \<and> (v < x \<longrightarrow> dx < d')"
          proof (cases "v = x")
            case True
            then show ?thesis using Some by simp
          next
            case False
            with v have "v \<in> set ts" by simp
            with all have "case groundDistance model tp v of
                         None \<Rightarrow> True
                       | Some d' \<Rightarrow> d \<le> d' \<and> (v < u \<longrightarrow> d < d')" by blast
            then show ?thesis using \<open>dx < d\<close> by (auto split: option.splits)
          qed
        qed (simp_all add: Some)
        ultimately show ?thesis by blast
      next
        case False
        have "scanBest model tp (ts @ [x]) closest_init = \<lparr>c_distance = Fin d, c_time = Some u\<rparr>"
          using Some False ud(1) by (simp add: scanBest_simps closer_def)
        moreover have "closestSample model tp (ts @ [x]) u d"
          using uts gu all Some False ux by (auto simp: closestSample_def)
        ultimately show ?thesis by blast
      qed
    qed
  qed
qed

lemma coarseTimes_sorted: "sorted_wrt (<) (coarseTimes now)"
  by (simp add: coarseTimes_def loopTimes_sorted)

lemma coarseTimes_lower: "u \<in> set (coarseTimes now) \<Longrightarrow> now \<le> u"
  unfolding coarseTimes_def by (rule loopTimes_lower)

lemma coarseTimes_first: "now \<in> set (coarseTimes now)"
proof -
  have "now = now + coarseStepMs * int 0 \<and> now \<le> lookaheadEnd now"
    by (simp add: lookaheadEnd_def PASS_LOOKAHEAD_MINUTES_def)
  then show ?thesis
    unfolding coarseTimes_def using loopTimes_mem[OF coarseStepMs_pos, of now now "lookaheadEnd now"]
    by blast
qed

lemma groundDistance_no_model: "groundDistance None tp u = None"
  by (simp add: groundDistance_def computeGroundPoint_def)

lemma nextPass_no_coarse_hit:
  assumes "0 < now"
    and "\<forall>u \<in> set (coarseTimes now).
           \<not> distWithin (groundDistance model tp u) PASS_THRESHOLD_COARSE_KM"
  shows "(nextPassPrediction model (Some tp) thr now = None
            \<and> (\<forall>u \<in> set (coarseTimes now). groundDistance model tp u = None))
         \<or> (\<exists>u d. closestSample model tp (coarseTimes now) u d
                  \<and> nextPassPrediction model (Some tp) thr now
                      = Some \<lparr>p_time = u, p_distance = Fin d, thresholdHit = False\<rparr>)"
proof (cases model)
  case None
  then show ?thesis by (simp add: nextPassPrediction_def groundDistance_no_model)
next
  case (Some track)
  have scan: "coarseScan model tp now (lookaheadEnd now) now closest_init
                = (None, scanBest model tp (coarseTimes now) closest_init)"
    using assms(2) unfolding coarseTimes_def by (rule coarseScan_no_hit)
  have res: "nextPassPrediction model (Some tp) thr now
               = fallbackPrediction (scanBest model tp (coarseTimes now) closest_init)"
    using Some scan by (simp add: nextPassPrediction_def Let_def lookaheadEnd_def)
  from scanBest_init[OF coarseTimes_sorted, of model tp now] show ?thesis
  proof
    assume "scanBest model tp (coarseTimes now) closest_init = closest_init
            \<and> (\<forall>u \<in> set (coarseTimes now). groundDistance model tp u = None)"
    then show ?thesis by (simp add: res fallbackPrediction_def closest_init_def)
  next
    assume "\<exists>u d. scanBest model tp (coarseTimes now) closest_init
                    = \<lparr>c_distance = Fin d, c_time = Some u\<rparr>
                  \<and> closestSample model tp (coarseTimes now) u d"
    then obtain u d where ud: "scanBest model tp (coarseTimes now) closest_init
                    = \<lparr>c_distance = Fin d, c_time = Some u\<rparr>"
       "closestSample model tp (coarseTimes now) u d" by blast
    have "u \<in> set (coarseTimes now)" using ud(2) by (simp add: closestSample_def)
    then have "u \<noteq> 0" using coarseTimes_lower[of u now] assms(1) by simp
    then have "nextPassPrediction model (Some tp) thr now
                 = Some \<lparr>p_time = u, p_distance = Fin d, thresholdHit = False\<rparr>"
      by (simp add: res ud(1) fallbackPrediction_def)
    with ud(2) show ?thesis by blast
  qed
qed

text \<open>
  Claim C5. At a current time after the epoch: if no sample of the coarse scan over
  the lookahead window is within the coarse detection threshold, then either no
  sample of the scan has a distance and the prediction is \<open>null\<close>, or the prediction
  is the closest sample of the scan (the earliest of the closest), with its distance
  and \<open>thresholdHit = false\<close>.
\<close>

theorem nextPass_fallback_closest:
  assumes "0 < now"
    and "\<forall>u \<in> set (coarseTimes now).
           \<not> distWithin (groundDistance model tp u) PASS_THRESHOLD_COARSE_KM"
  shows "(nextPassPrediction model (Some tp) thr now = None
            \<and> (\<forall>u \<in> set (coarseTimes now). groundDistance model tp u = None))
         \<or> (\<exists>u d. closestSample model tp (coarseTimes now) u d
                  \<and> nextPassPrediction model (Some tp) thr now
                      = Some \<lparr>p_time = u, p_distance = Fin d, thresholdHit = False\<rparr>)"
  using assms by (rule nextPass_no_coarse_hit)

text \<open>
  Claim C6. When the coarse scan first hits at \<open>t0\<close> and a sample of the refine scan
  around \<open>t0\<close> is within the configured threshold, the prediction is the earliest such
  sample \<open>u\<close> of the refine scan, with its distance and \<open>thresholdHit = true\<close>, whatever
  the distances of the later samples are.
\<close>

theorem nextPass_refine_earliest:
  assumes c1: "t0 \<in> set (coarseTimes now)"
    and c2: "distWithin (groundDistance model tp t0) PASS_THRESHOLD_COARSE_KM"
    and c3: "\<forall>v \<in> set (coarseTimes now). v < t0 \<longrightarrow>
               \<not> distWithin (groundDistance model tp v) PASS_THRESHOLD_COARSE_KM"
    and r1: "u \<in> set (refineTimes now t0)"
    and r2: "groundDistance model tp u = Some d" "d \<le> thr"
    and r3: "\<forall>v \<in> set (refineTimes now t0). v < u \<longrightarrow> \<not> distWithin (groundDistance model tp v) thr"
  shows "nextPassPrediction model (Some tp) thr now
           = Some \<lparr>p_time = u, p_distance = Fin d, thresholdHit = True\<rparr>"
proof -
  obtain track where model: "model = Some track"
    using r2(1) by (cases model) (simp_all add: groundDistance_no_model)
  obtain xs ys where cs: "coarseTimes now = xs @ t0 # ys"
    "\<forall>v \<in> set (coarseTimes now). v < t0 \<longleftrightarrow> v \<in> set xs"
    using sorted_split[OF coarseTimes_sorted c1] by blast
  have xs: "\<forall>v \<in> set xs. \<not> distWithin (groundDistance model tp v) PASS_THRESHOLD_COARSE_KM"
    using c3 cs by auto
  have scan: "coarseScan model tp now (lookaheadEnd now) now closest_init
     = (Some \<lparr>w_start = max now (t0 - refineWindowMs),
              w_end = min (lookaheadEnd now) (t0 + refineWindowMs)\<rparr>,
        scanBest model tp (xs @ [t0]) closest_init)"
    using cs(1) xs c2 unfolding coarseTimes_def by (rule coarseScan_hit)
  have "sorted_wrt (<) (refineTimes now t0)" by (simp add: refineTimes_def loopTimes_sorted)
  from sorted_split[OF this r1] obtain xs' ys' where rs: "refineTimes now t0 = xs' @ u # ys'"
    "\<forall>v \<in> set (refineTimes now t0). v < u \<longleftrightarrow> v \<in> set xs'" by blast
  have xs': "\<forall>v \<in> set xs'. \<not> distWithin (groundDistance model tp v) thr"
    using r3 rs by auto
  have refine: "refineScan model tp thr (min (lookaheadEnd now) (t0 + refineWindowMs))
                  (max now (t0 - refineWindowMs)) closest_init
                  (scanBest model tp (xs @ [t0]) closest_init)
                = Inl \<lparr>p_time = u, p_distance = Fin d, thresholdHit = True\<rparr>"
    using rs(1) xs' r2 unfolding refineTimes_def by (rule refineScan_hit)
  show ?thesis
    using model scan refine by (simp add: nextPassPrediction_def Let_def lookaheadEnd_def)
qed

lemma pi_le_four: "pi \<le> 4"
  using pi_less_4 by simp

lemma groundDistance_antipodal:
  "groundDistance (Some antipodalTrack) equatorTarget u = Some (6371 * pi)"
  by (simp add: groundDistance_def computeGroundPoint_def antipodalTrack_def
        normalizeLngFin_small antipodal_distance)

lemma groundDistance_equator:
  assumes "track u = Some \<lparr>lat = 0, lng = x\<rparr>" "\<bar>x\<bar> \<le> 180"
  shows "groundDistance (Some track) equatorTarget u = Some (6371 * (\<bar>x\<bar> * pi / 180))"
  using haversine_equator[of "\<lparr>lat = 0, lng = x\<rparr>" equatorTarget] assms
  by (simp add: groundDistance_def computeGroundPoint_def normalizeLngFin_small equatorTarget_def)

lemma groundDistance_near:
  "groundDistance (Some nearTrack) equatorTarget u = Some (6371 * (pi / 180))"
  using groundDistance_equator[of nearTrack u 1] by (simp add: nearTrack_def)

lemma groundDistance_approach:
  "groundDistance (Some approachTrack) equatorTarget 1000 = Some (6371 * (2 / 5 * pi / 180))"
  "groundDistance (Some approachTrack) equatorTarget 2000 = Some (6371 * (1 / 10 * pi / 180))"
  "groundDistance (Some approachTrack) equatorTarget 3000 = Some 0"
  using groundDistance_equator[of approachTrack 1000 "2 / 5"]
        groundDistance_equator[of approachTrack 2000 "1 / 10"]
        groundDistance_equator[of approachTrack 3000 0]
  by (simp_all add: approachTrack_def)

text \<open>
  Witness of C5, at time 1000 on the ground track that stays at the antipode of the target:
  every sample is \<open>6371 * pi\<close> km away, and the prediction is the first one.
\<close>

theorem nextPass_fallback_closest_witness:
  "(0 :: int) < 1000
   \<and> nextPassPrediction (Some antipodalTrack) (Some equatorTarget) 5 1000
       = Some \<lparr>p_time = 1000, p_distance = Fin (6371 * pi), thresholdHit = False\<rparr>"
proof -
  have nohit: "\<forall>u \<in> set (coarseTimes 1000).
           \<not> distWithin (groundDistance (Some antipodalTrack) equatorTarget u) PASS_THRESHOLD_COARSE_KM"
    using pi_ge_three
    by (simp add: groundDistance_antipodal distWithin_def PASS_THRESHOLD_COARSE_KM_def)
  have first: "(1000 :: int) \<in> set (coarseTimes 1000)" by (rule coarseTimes_first)
  from nextPass_fallback_closest[of 1000 "Some antipodalTrack" equatorTarget 5, OF _ nohit]
  have "(nextPassPrediction (Some antipodalTrack) (Some equatorTarget) 5 1000 = None
            \<and> (\<forall>u \<in> set (coarseTimes 1000). groundDistance (Some antipodalTrack) equatorTarget u = None))
         \<or> (\<exists>u d. closestSample (Some antipodalTrack) equatorTarget (coarseTimes 1000) u d
                  \<and> nextPassPrediction (Some antipodalTrack) (Some equatorTarget) 5 1000
                      = Some \<lparr>p_time = u, p_distance = Fin d, thresholdHit = False\<rparr>)"
    by simp
  then obtain u d where ud: "closestSample (Some antipodalTrack) equatorTarget (coarseTimes 1000) u d"
    "nextPassPrediction (Some antipodalTrack) (Some equatorTarget) 5 1000
                      = Some \<lparr>p_time = u, p_distance = Fin d, thresholdHit = False\<rparr>"
    using first by (auto simp: groundDistance_antipodal)
  have d: "d = 6371 * pi" using ud(1) by (simp add: closestSample_def groundDistance_antipodal)
  have "u \<in> set (coarseTimes 1000)" using ud(1) by (simp add: closestSample_def)
  then have "1000 \<le> u" by (rule coarseTimes_lower)
  moreover have "\<not> 1000 < u"
    using ud(1) first unfolding closestSample_def
    by (auto simp: groundDistance_antipodal)
  ultimately have "u = 1000" by simp
  with ud(2) d show ?thesis by simp
qed

lemma refineTimes_1000: "refineTimes 1000 1000 = loopTimes 1000 241000 1000"
  by (simp add: refineTimes_def lookaheadEnd_def PASS_LOOKAHEAD_MINUTES_def refineWindowMs_def
        PASS_REFINE_WINDOW_SECONDS_def refineStepMs_def PASS_REFINE_STEP_SECONDS_def)

text \<open>
  Witness of C6, at time 1000 with threshold 25 on the approaching ground track: the coarse
  scan hits at 1000 (0.4 degrees, under 57 km), the refine scan finds the sample at
  2000 (0.1 degrees, under 15 km) and returns it, although the sample at 3000 is at
  distance 0.
\<close>

theorem nextPass_refine_earliest_witness:
  "nextPassPrediction (Some approachTrack) (Some equatorTarget) 25 1000
     = Some \<lparr>p_time = 2000, p_distance = Fin (6371 * (1 / 10 * pi / 180)), thresholdHit = True\<rparr>
   \<and> groundDistance (Some approachTrack) equatorTarget 3000 = Some 0"
proof -
  let ?gd = "groundDistance (Some approachTrack) equatorTarget"
  have c1: "(1000 :: int) \<in> set (coarseTimes 1000)" by (rule coarseTimes_first)
  have c2: "distWithin (?gd 1000) PASS_THRESHOLD_COARSE_KM"
    using pi_le_four by (simp add: groundDistance_approach distWithin_def PASS_THRESHOLD_COARSE_KM_def)
  have c3: "\<forall>v \<in> set (coarseTimes 1000). v < 1000 \<longrightarrow>
               \<not> distWithin (?gd v) PASS_THRESHOLD_COARSE_KM"
    using coarseTimes_lower[of _ 1000] by force
  have mem: "\<And>v. v \<in> set (refineTimes 1000 1000) \<longleftrightarrow> (\<exists>k :: nat. v = 1000 + 1000 * int k) \<and> v \<le> 241000"
    unfolding refineTimes_1000 by (rule loopTimes_mem) simp
  have "(2000 :: int) = 1000 + 1000 * int 1 \<and> (2000 :: int) \<le> 241000" by simp
  then have r1: "(2000 :: int) \<in> set (refineTimes 1000 1000)" unfolding mem by blast
  have r2: "?gd 2000 = Some (6371 * (1 / 10 * pi / 180))" "6371 * (1 / 10 * pi / 180) \<le> (25 :: real)"
    using pi_le_four by (simp_all add: groundDistance_approach)
  have r3: "\<forall>v \<in> set (refineTimes 1000 1000). v < 2000 \<longrightarrow> \<not> distWithin (?gd v) 25"
  proof (intro ballI impI)
    fix v assume v: "v \<in> set (refineTimes 1000 1000)" "v < 2000"
    then obtain k :: nat where k: "v = 1000 + 1000 * int k" unfolding mem by blast
    with v(2) have "k = 0" by simp
    with k have "v = 1000" by simp
    then show "\<not> distWithin (?gd v) 25"
      using pi_ge_three by (simp add: groundDistance_approach distWithin_def)
  qed
  show ?thesis
    using nextPass_refine_earliest[OF c1 c2 c3 r1 r2 r3]
    by (simp add: groundDistance_approach)
qed

text \<open>
  Claim C1 says that \<open>thresholdHit\<close> is true exactly when the search found a sample
  within the configured threshold. The predictor does not do so on the ground track
  that stays 1 degree (between 106 and 142 km) from the target, with the threshold
  set to 150 km, at time 1000: no sample of the coarse scan is within the coarse
  detection threshold of 75 km, so the fallback returns the first sample with
  \<open>thresholdHit = false\<close>, although that sample is within the configured threshold.
\<close>

theorem nextPass_threshold_above_coarse:
  "nextPassPrediction (Some nearTrack) (Some equatorTarget) 150 1000
     = Some \<lparr>p_time = 1000, p_distance = Fin (6371 * (pi / 180)), thresholdHit = False\<rparr>
   \<and> distWithin (groundDistance (Some nearTrack) equatorTarget 1000) 150"
proof -
  have nohit: "\<forall>u \<in> set (coarseTimes 1000).
           \<not> distWithin (groundDistance (Some nearTrack) equatorTarget u) PASS_THRESHOLD_COARSE_KM"
    using pi_ge_three
    by (simp add: groundDistance_near distWithin_def PASS_THRESHOLD_COARSE_KM_def)
  have first: "(1000 :: int) \<in> set (coarseTimes 1000)" by (rule coarseTimes_first)
  from nextPass_no_coarse_hit[of 1000 "Some nearTrack" equatorTarget 150, OF _ nohit]
  have "(nextPassPrediction (Some nearTrack) (Some equatorTarget) 150 1000 = None
            \<and> (\<forall>u \<in> set (coarseTimes 1000). groundDistance (Some nearTrack) equatorTarget u = None))
         \<or> (\<exists>u d. closestSample (Some nearTrack) equatorTarget (coarseTimes 1000) u d
                  \<and> nextPassPrediction (Some nearTrack) (Some equatorTarget) 150 1000
                      = Some \<lparr>p_time = u, p_distance = Fin d, thresholdHit = False\<rparr>)"
    by simp
  then obtain u d where ud: "closestSample (Some nearTrack) equatorTarget (coarseTimes 1000) u d"
    "nextPassPrediction (Some nearTrack) (Some equatorTarget) 150 1000
                      = Some \<lparr>p_time = u, p_distance = Fin d, thresholdHit = False\<rparr>"
    using first by (auto simp: groundDistance_near)
  have d: "d = 6371 * (pi / 180)" using ud(1) by (simp add: closestSample_def groundDistance_near)
  have "u \<in> set (coarseTimes 1000)" using ud(1) by (simp add: closestSample_def)
  then have "1000 \<le> u" by (rule coarseTimes_lower)
  moreover have "\<not> 1000 < u"
    using ud(1) first unfolding closestSample_def
    by (auto simp: groundDistance_near)
  ultimately have "u = 1000" by simp
  moreover have "distWithin (groundDistance (Some nearTrack) equatorTarget 1000) 150"
    using pi_le_four by (simp add: groundDistance_near distWithin_def)
  ultimately show ?thesis using ud(2) d by simp
qed

lemma sampled_init: "sampled model tp closest_init"
  by (simp add: sampled_def closest_init_def)

lemma sampled_closer:
  "sampled model tp b \<Longrightarrow> sampled model tp (closer (groundDistance model tp t) t b)"
  by (cases "groundDistance model tp t")
     (auto simp: sampled_def closer_def split: option.splits)

lemma refineScan_result:
  "sampled model tp br \<Longrightarrow>
   (case refineScan model tp thr wend t br b of
      Inl p \<Rightarrow> thresholdHit p
                \<and> (\<exists>d. groundDistance model tp (p_time p) = Some d \<and> p_distance p = Fin d \<and> d \<le> thr)
    | Inr (br', b') \<Rightarrow> sampled model tp br')"
proof (induction model tp thr wend t br b rule: refineScan.induct)
  case (1 model tp thr wend t br b)
  show ?case
  proof (cases "t \<le> wend")
    case False
    then show ?thesis using 1(3) by (subst refineScan.simps) simp
  next
    case True
    let ?r = "evaluatePoint model tp b t"
    let ?br' = "closer (fst ?r) t br"
    have fst: "fst ?r = groundDistance model tp t" by (simp add: evaluatePoint_eq)
    have inv: "sampled model tp ?br'" unfolding fst using 1(3) by (rule sampled_closer)
    show ?thesis
    proof (cases "groundDistance model tp t")
      case None
      have eq: "refineScan model tp thr wend t br b
                  = refineScan model tp thr wend (t + refineStepMs) ?br' (snd ?r)"
        using True None by (subst refineScan.simps) (simp add: Let_def fst)
      show ?thesis unfolding eq using 1(1)[OF True refl refl _ inv] None fst by simp
    next
      case (Some d)
      show ?thesis
      proof (cases "d \<le> thr")
        case True
        have "refineScan model tp thr wend t br b
                = Inl \<lparr>p_time = t, p_distance = Fin d, thresholdHit = True\<rparr>"
          using \<open>t \<le> wend\<close> Some True by (subst refineScan.simps) (simp add: Let_def fst)
        then show ?thesis using Some True by simp
      next
        case False
        have eq: "refineScan model tp thr wend t br b
                  = refineScan model tp thr wend (t + refineStepMs) ?br' (snd ?r)"
          using True Some False by (subst refineScan.simps) (simp add: Let_def fst)
        show ?thesis unfolding eq using 1(2)[OF True refl refl _ _ inv, of d] Some False fst by simp
      qed
    qed
  qed
qed

text \<open>
  For every threshold, a prediction with \<open>thresholdHit = true\<close> is a sample within the
  configured threshold.
\<close>

lemma thresholdHit_sound:
  assumes "nextPassPrediction model (Some tp) thr now = Some p" and "thresholdHit p"
  shows "\<exists>d. groundDistance model tp (p_time p) = Some d \<and> p_distance p = Fin d \<and> d \<le> thr"
proof -
  obtain track where model: "model = Some track"
    using assms(1) by (cases model) (simp_all add: nextPassPrediction_def)
  define scan where "scan = coarseScan model tp now (lookaheadEnd now) now closest_init"
  have fb: "fallbackPrediction b \<noteq> Some p" for b
    using assms(2) by (auto simp: fallbackPrediction_def split: option.splits if_splits)
  show ?thesis
  proof (cases "fst scan")
    case None
    then have "nextPassPrediction model (Some tp) thr now = fallbackPrediction (snd scan)"
      using model by (simp add: nextPassPrediction_def Let_def scan_def lookaheadEnd_def)
    with assms(1) have "fallbackPrediction (snd scan) = Some p" by simp
    with fb show ?thesis by blast
  next
    case (Some w)
    let ?rs = "refineScan model tp thr (w_end w) (w_start w) closest_init (snd scan)"
    have res: "nextPassPrediction model (Some tp) thr now =
       (case ?rs of
          Inl q \<Rightarrow> Some q
        | Inr (bestRefined, best) \<Rightarrow>
            (case refinedPrediction thr bestRefined of
               Some q \<Rightarrow> Some q
             | None \<Rightarrow> fallbackPrediction best))"
      using model Some by (simp add: nextPassPrediction_def Let_def scan_def lookaheadEnd_def)
    have rr: "case ?rs of
      Inl p \<Rightarrow> thresholdHit p
                \<and> (\<exists>d. groundDistance model tp (p_time p) = Some d \<and> p_distance p = Fin d \<and> d \<le> thr)
    | Inr (br', b') \<Rightarrow> sampled model tp br'"
      using sampled_init by (rule refineScan_result)
    show ?thesis
    proof (cases ?rs)
      case (Inl q)
      with res assms(1) have "q = p" by simp
      with rr Inl show ?thesis by simp
    next
      case (Inr pair)
      obtain br' b' where pair: "pair = (br', b')" by (cases pair)
      have inv: "sampled model tp br'" using rr Inr pair by simp
      show ?thesis
      proof (cases "refinedPrediction thr br'")
        case None
        with res Inr pair assms(1) have "fallbackPrediction b' = Some p" by simp
        with fb show ?thesis by blast
      next
        case (Some q)
        with res Inr pair assms(1) have qp: "q = p" by simp
        from Some obtain u where u: "c_time br' = Some u"
          "q = \<lparr>p_time = u, p_distance = c_distance br',
                thresholdHit = js_le (c_distance br') (Fin thr)\<rparr>"
          by (auto simp: refinedPrediction_def split: option.splits if_splits)
        from inv u(1) obtain d where d: "groundDistance model tp u = Some d" "c_distance br' = Fin d"
          by (auto simp: sampled_def split: option.splits)
        have p: "p = \<lparr>p_time = u, p_distance = Fin d, thresholdHit = (d \<le> thr)\<rparr>"
          using qp u(2) d(2) by simp
        have "d \<le> thr" using assms(2) unfolding p by simp
        with d(1) show ?thesis unfolding p by simp
      qed
    qed
  qed
qed

end
